theory Spec2Isabelle
  imports Complex_Main "HOL-Library.Sublist"
begin

section \<open>Values of the program\<close>

text \<open>
  The server of \<^verbatim>\<open>src/ethekwini_gis_mcp.py\<close> keeps what the remote ArcGIS catalog
  answers as parsed JSON and never checks its shape, so the model keeps JSON values
  untyped too. A JSON object is the Python dict it parses to (keys in insertion order).
  Python's floats are read as reals and strings as lists of characters. One call runs at
  a time: what another task does at an \<^verbatim>\<open>await\<close> is not modelled. The calls of the logger
  are left out, they change no state.
\<close>

datatype json =
    JNull
  | JBool bool
  | JInt int
  | JFloat real
  | JStr string
  | JArr "json list"
  | JObj "(string \<times> json) list"

text \<open>
  The exceptions that the modelled code can meet, all of them subclasses of \<^verbatim>\<open>Exception\<close>,
  which is what the handlers catch.
\<close>

datatype exn =
    TypeError
  | AttributeError
  | ValueError string
  | JSONDecodeError
  | HTTPError string

subsection \<open>Python's dict, as used for the registry and the caches\<close>

text \<open>
  \<^verbatim>\<open>d[k] = v\<close>: a key that is present keeps its place and gets the new value, a new key
  goes to the end. Iteration (\<^verbatim>\<open>d.items()\<close>) is the list's order.
\<close>

fun dict_set :: "('k \<times> 'v) list \<Rightarrow> 'k \<Rightarrow> 'v \<Rightarrow> ('k \<times> 'v) list" where
  "dict_set [] k v = [(k, v)]"
| "dict_set ((k', v') # d) k v =
     (if k' = k then (k', v) # d else (k', v') # dict_set d k v)"

subsection \<open>Python's operations on untyped values\<close>

text \<open>\<^verbatim>\<open>if x:\<close> on a parsed JSON value.\<close>

fun truthy :: "json \<Rightarrow> bool" where
  "truthy JNull = False"
| "truthy (JBool b) = b"
| "truthy (JInt i) = (i \<noteq> 0)"
| "truthy (JFloat r) = (r \<noteq> 0)"
| "truthy (JStr s) = (s \<noteq> [])"
| "truthy (JArr xs) = (xs \<noteq> [])"
| "truthy (JObj kvs) = (kvs \<noteq> [])"

text \<open>\<^verbatim>\<open>x.get(key, default)\<close>: only a dict has the method.\<close>

fun py_get :: "json \<Rightarrow> string \<Rightarrow> json \<Rightarrow> exn + json" where
  "py_get (JObj kvs) key dflt = Inr (case map_of kvs key of None \<Rightarrow> dflt | Some v \<Rightarrow> v)"
| "py_get _ key dflt = Inl AttributeError"

text \<open>
  \<^verbatim>\<open>for x in v\<close>: a list gives its elements, a dict its keys, a string its characters;
  nothing else is iterable.
\<close>

fun py_iter :: "json \<Rightarrow> exn + json list" where
  "py_iter (JArr xs) = Inr xs"
| "py_iter (JObj kvs) = Inr (map (\<lambda>kv. JStr (fst kv)) kvs)"
| "py_iter (JStr s) = Inr (map (\<lambda>c. JStr [c]) s)"
| "py_iter _ = Inl TypeError"

text \<open>
  \<^verbatim>\<open>x not in d\<close> for a dict with string keys: lists and dicts are unhashable, every
  other value that is not a string is simply absent.
\<close>

fun py_not_in :: "json \<Rightarrow> (string \<times> 'v) list \<Rightarrow> exn + bool" where
  "py_not_in (JStr s) d = Inr (s \<notin> fst ` set d)"
| "py_not_in (JArr xs) d = Inl TypeError"
| "py_not_in (JObj kvs) d = Inl TypeError"
| "py_not_in _ d = Inr True"

text \<open>
  \<^verbatim>\<open>str.lower()\<close> and \<^verbatim>\<open>str.replace("/", "_")\<close>. Lowering is modelled on the ASCII letters
  and leaves every other character as it is.
\<close>

definition lower_char :: "char \<Rightarrow> char" where
  "lower_char c =
     (if (65::nat) \<le> of_char c \<and> of_char c \<le> (90::nat) then char_of (of_char c + (32::nat)) else c)"

definition lower :: "string \<Rightarrow> string" where
  "lower s = map lower_char s"

definition replace_slash :: "string \<Rightarrow> string" where
  "replace_slash s = map (\<lambda>c. if c = CHR ''/'' then CHR ''_'' else c) s"

text \<open>\<^verbatim>\<open>x.lower()\<close> on an untyped value: only a string has the method.\<close>

fun py_lower :: "json \<Rightarrow> exn + string" where
  "py_lower (JStr s) = Inr (lower s)"
| "py_lower _ = Inl AttributeError"

text \<open>\<^verbatim>\<open>str(n)\<close> for an integer.\<close>

fun str_nat :: "nat \<Rightarrow> string" where
  "str_nat n =
     (if n < 10 then [char_of (48 + n)] else str_nat (n div 10) @ [char_of (48 + n mod 10)])"

definition str_int :: "int \<Rightarrow> string" where
  "str_int i = (if i < 0 then CHR ''-'' # str_nat (nat (- i)) else str_nat (nat i))"

text \<open>
  A value inside an f-string. What Python prints for a float, a list or a dict is not
  modelled: \<open>fmt\<close> stands for it.
\<close>

fun py_format :: "(json \<Rightarrow> string) \<Rightarrow> json \<Rightarrow> string" where
  "py_format fmt (JStr s) = s"
| "py_format fmt JNull = ''None''"
| "py_format fmt (JBool b) = (if b then ''True'' else ''False'')"
| "py_format fmt (JInt i) = str_int i"
| "py_format fmt j = fmt j"

text \<open>\<^verbatim>\<open>" ".join(xs)\<close>: every item must be a string.\<close>

fun join_sp :: "string list \<Rightarrow> string" where
  "join_sp [] = []"
| "join_sp [s] = s"
| "join_sp (s # t # ss) = s @ '' '' @ join_sp (t # ss)"

fun strs_of :: "json list \<Rightarrow> exn + string list" where
  "strs_of [] = Inr []"
| "strs_of (JStr s # js) = (case strs_of js of Inl e \<Rightarrow> Inl e | Inr ss \<Rightarrow> Inr (s # ss))"
| "strs_of (_ # js) = Inl TypeError"

definition py_join :: "json list \<Rightarrow> exn + string" where
  "py_join js = (case strs_of js of Inl e \<Rightarrow> Inl e | Inr ss \<Rightarrow> Inr (join_sp ss))"

section \<open>The remote service and the server's state\<close>

record request =
  req_url :: string
  req_params :: "(string \<times> json) list"
  req_timeout :: real

text \<open>A response whose body does not parse has no \<open>body\<close>: \<^verbatim>\<open>response.json()\<close> raises.\<close>

record response =
  status_code :: int
  body :: "json option"

text \<open>
  The remote: what \<^verbatim>\<open>self.client.get\<close> answers to a request, or the exception it raises.
  During one call of the server the remote is one function, so that a request sent twice
  is answered the same way; every call is given its own remote.
\<close>

type_synonym remote = "request \<Rightarrow> exn + response"

record dataset_info =
  ds_id :: string
  ds_name :: string
  ds_title :: json
  ds_description :: json
  ds_type :: string
  ds_url :: string
  ds_created :: string
  ds_updated :: string
  ds_tags :: "json list"
  ds_categories :: "json list"
  ds_owner :: json
  ds_service_info :: json
  ds_layers :: json

record service_entry =
  se_name :: string
  se_url :: string
  se_type :: string
  se_dataset_id :: string
  se_info :: json

record server_state =
  known_services :: "(string \<times> string) list"
  cached_datasets :: "(string \<times> dataset_info) list"
  cached_services :: "(string \<times> service_entry) list"
  last_refresh :: "real option"

definition api_base :: string where
  "api_base = ''https://services3.arcgis.com/HO0zfySJshlD6Twu/arcgis/rest/services''"

text \<open>The state that \<^verbatim>\<open>__init__\<close> builds.\<close>

definition init_state :: server_state where
  "init_state =
     \<lparr>known_services = [(''Leases'', api_base @ ''/Leases/FeatureServer'')],
      cached_datasets = [],
      cached_services = [],
      last_refresh = None\<rparr>"

text \<open>
  The working set of one discovery pass: \<^verbatim>\<open>all_datasets\<close>, \<^verbatim>\<open>all_services\<close>, and the
  requests sent so far, in order.
\<close>

record working =
  all_datasets :: "(string \<times> dataset_info) list"
  all_services :: "(string \<times> service_entry) list"
  probes :: "request list"

section \<open>Discovery\<close>

text \<open>
  \<^verbatim>\<open>_get_service_info\<close>: one GET with \<^verbatim>\<open>f=json\<close> and a 10 second timeout. Python's \<^verbatim>\<open>None\<close>
  (any failure) and a JSON \<^verbatim>\<open>null\<close> are the same value.
\<close>

definition service_info_request :: "string \<Rightarrow> request" where
  "service_info_request service_url =
     \<lparr>req_url = service_url, req_params = [(''f'', JStr ''json'')], req_timeout = 10\<rparr>"

definition get_service_info :: "remote \<Rightarrow> string \<Rightarrow> json" where
  "get_service_info http service_url =
     (case http (service_info_request service_url) of
        Inl e \<Rightarrow> JNull
      | Inr r \<Rightarrow>
          if status_code r = 200
          then (case body r of None \<Rightarrow> JNull | Some j \<Rightarrow> j)
          else JNull)"

text \<open>
  A request sent through \<^verbatim>\<open>self.client.get(url)\<close> with no further argument: the client's
  own timeout of 60 seconds applies.
\<close>

definition plain_request :: "string \<Rightarrow> request" where
  "plain_request url = \<lparr>req_url = url, req_params = [], req_timeout = 60\<rparr>"

definition catalog_request :: request where
  "catalog_request = plain_request (api_base @ ''?f=json'')"

definition folder_request :: "(json \<Rightarrow> string) \<Rightarrow> json \<Rightarrow> request" where
  "folder_request fmt folder = plain_request (api_base @ ''/'' @ py_format fmt folder @ ''?f=json'')"

text \<open>\<^verbatim>\<open>service_type in ["FeatureServer", "MapServer"]\<close>\<close>

definition served_type :: "json \<Rightarrow> bool" where
  "served_type service_type \<longleftrightarrow>
     service_type = JStr ''FeatureServer'' \<or> service_type = JStr ''MapServer''"

subsection \<open>The three dict literals that normalise a service descriptor\<close>

text \<open>Lines 510 to 524: a service of the registry. Its name is a key of the registry, a string.\<close>

definition known_dataset_info :: "string \<Rightarrow> string \<Rightarrow> json \<Rightarrow> exn + dataset_info" where
  "known_dataset_info service_name service_url service_info =
     (case py_get service_info ''serviceDescription'' (JStr service_name) of
        Inl e \<Rightarrow> Inl e
      | Inr title \<Rightarrow>
     (case py_get service_info ''description''
             (JStr (service_name @ '' feature service from eThekwini municipality'')) of
        Inl e \<Rightarrow> Inl e
      | Inr description \<Rightarrow>
     (case py_get service_info ''layers'' (JArr []) of
        Inl e \<Rightarrow> Inl e
      | Inr layers \<Rightarrow>
          Inr \<lparr>ds_id = lower service_name,
               ds_name = service_name,
               ds_title = title,
               ds_description = description,
               ds_type = ''Feature Service'',
               ds_url = service_url,
               ds_created = [],
               ds_updated = [],
               ds_tags = [JStr ''eThekwini'', JStr ''municipality'', JStr ''GIS''],
               ds_categories = [JStr ''Municipal Services''],
               ds_owner = JObj [(''name'', JStr ''eThekwini Municipality'')],
               ds_service_info = service_info,
               ds_layers = layers\<rparr>)))"

text \<open>
  Lines 557 to 571: a service listed at the root of the catalog, once \<^verbatim>\<open>service_name.lower()\<close>
  has shown its name to be a string (see \<open>root_insert\<close>).
\<close>

definition root_dataset_info :: "string \<Rightarrow> string \<Rightarrow> string \<Rightarrow> json \<Rightarrow> exn + dataset_info" where
  "root_dataset_info service_name service_type service_url service_info =
     (case py_get service_info ''serviceDescription'' (JStr service_name) of
        Inl e \<Rightarrow> Inl e
      | Inr title \<Rightarrow>
     (case py_get service_info ''description''
             (JStr (service_name @ '' service from eThekwini municipality'')) of
        Inl e \<Rightarrow> Inl e
      | Inr description \<Rightarrow>
     (case py_get service_info ''layers'' (JArr []) of
        Inl e \<Rightarrow> Inl e
      | Inr layers \<Rightarrow>
          Inr \<lparr>ds_id = lower service_name,
               ds_name = service_name,
               ds_title = title,
               ds_description = description,
               ds_type = service_type,
               ds_url = service_url,
               ds_created = [],
               ds_updated = [],
               ds_tags = [JStr ''eThekwini'', JStr ''municipality'', JStr ''GIS''],
               ds_categories = [JStr ''Municipal Services''],
               ds_owner = JObj [(''name'', JStr ''eThekwini Municipality'')],
               ds_service_info = service_info,
               ds_layers = layers\<rparr>)))"

text \<open>
  Lines 605 to 619: a service listed in a folder. \<open>full_service_name\<close> is the f-string
  \<^verbatim>\<open>f"{folder}/{service_name}"\<close>, a string whatever the remote sent; \<open>folder\<close> and
  \<open>service_name\<close> are the remote's values.
\<close>

definition folder_dataset_info ::
  "(json \<Rightarrow> string) \<Rightarrow> json \<Rightarrow> json \<Rightarrow> string \<Rightarrow> string \<Rightarrow> string \<Rightarrow> json \<Rightarrow> exn + dataset_info" where
  "folder_dataset_info fmt folder service_name full_service_name service_type service_url service_info =
     (case py_get service_info ''serviceDescription'' service_name of
        Inl e \<Rightarrow> Inl e
      | Inr title \<Rightarrow>
     (case py_get service_info ''description''
             (JStr (py_format fmt service_name @ '' service from eThekwini municipality'')) of
        Inl e \<Rightarrow> Inl e
      | Inr description \<Rightarrow>
     (case py_get service_info ''layers'' (JArr []) of
        Inl e \<Rightarrow> Inl e
      | Inr layers \<Rightarrow>
          Inr \<lparr>ds_id = replace_slash (lower full_service_name),
               ds_name = full_service_name,
               ds_title = title,
               ds_description = description,
               ds_type = service_type,
               ds_url = service_url,
               ds_created = [],
               ds_updated = [],
               ds_tags = [JStr ''eThekwini'', JStr ''municipality'', JStr ''GIS'', folder],
               ds_categories = [JStr ''Municipal Services'', folder],
               ds_owner = JObj [(''name'', JStr ''eThekwini Municipality'')],
               ds_service_info = service_info,
               ds_layers = layers\<rparr>)))"

text \<open>The two assignments that follow each literal: \<^verbatim>\<open>all_datasets[...] = ...\<close> and \<^verbatim>\<open>all_services[...] = ...\<close>.\<close>

definition add_service ::
  "working \<Rightarrow> string \<Rightarrow> dataset_info \<Rightarrow> string \<Rightarrow> service_entry \<Rightarrow> working" where
  "add_service w dataset_key dataset_info service_key entry =
     w\<lparr>all_datasets := dict_set (all_datasets w) dataset_key dataset_info,
       all_services := dict_set (all_services w) service_key entry\<rparr>"

text \<open>
  The body of \<^verbatim>\<open>if service_info:\<close> in each of the three loops (lines 510 to 533, 557 to
  580, 605 to 628): the literal, then the two assignments. Nothing is assigned when the
  literal raises.
\<close>

definition known_insert :: "working \<Rightarrow> string \<Rightarrow> string \<Rightarrow> json \<Rightarrow> exn + working" where
  "known_insert w service_name service_url service_info =
     (case known_dataset_info service_name service_url service_info of
        Inl e \<Rightarrow> Inl e
      | Inr dataset_info \<Rightarrow>
          Inr (add_service w (lower service_name) dataset_info service_name
                 \<lparr>se_name = service_name, se_url = service_url, se_type = ''Feature Service'',
                  se_dataset_id = lower service_name, se_info = service_info\<rparr>))"

fun root_insert :: "working \<Rightarrow> json \<Rightarrow> string \<Rightarrow> string \<Rightarrow> json \<Rightarrow> exn + working" where
  "root_insert w (JStr service_name) service_type service_url service_info =
     (case root_dataset_info service_name service_type service_url service_info of
        Inl e \<Rightarrow> Inl e
      | Inr dataset_info \<Rightarrow>
          Inr (add_service w (lower service_name) dataset_info service_name
                 \<lparr>se_name = service_name, se_url = service_url, se_type = service_type,
                  se_dataset_id = lower service_name, se_info = service_info\<rparr>))"
| "root_insert w _ service_type service_url service_info = Inl AttributeError"

definition folder_insert ::
  "(json \<Rightarrow> string) \<Rightarrow> working \<Rightarrow> json \<Rightarrow> json \<Rightarrow> string \<Rightarrow> string \<Rightarrow> string \<Rightarrow> json
     \<Rightarrow> exn + working" where
  "folder_insert fmt w folder service_name full_service_name service_type service_url service_info =
     (case folder_dataset_info fmt folder service_name full_service_name service_type service_url
             service_info of
        Inl e \<Rightarrow> Inl e
      | Inr dataset_info \<Rightarrow>
          Inr (add_service w (replace_slash (lower full_service_name)) dataset_info full_service_name
                 \<lparr>se_name = full_service_name, se_url = service_url, se_type = service_type,
                  se_dataset_id = replace_slash (lower full_service_name), se_info = service_info\<rparr>))"

text \<open>One call of \<^verbatim>\<open>_get_service_info\<close> from the pass, with its request recorded.\<close>

definition probe :: "working \<Rightarrow> string \<Rightarrow> working" where
  "probe w service_url = w\<lparr>probes := probes w @ [service_info_request service_url]\<rparr>"

subsection \<open>The loops of the pass\<close>

text \<open>
  Lines 506 to 538, one iteration. The handler of line 537 catches what the body raises:
  the item is skipped. (The log line 535 can raise too, on a \<open>layers\<close> value without a
  length, but only after both assignments; the handler catches it as well.)
\<close>

definition known_step :: "remote \<Rightarrow> working \<Rightarrow> string \<times> string \<Rightarrow> working" where
  "known_step http w item =
     (let service_name = fst item;
          service_url = snd item;
          service_info = get_service_info http service_url;
          w1 = probe w service_url
      in if truthy service_info
         then (case known_insert w1 service_name service_url service_info of
                 Inl e \<Rightarrow> w1
               | Inr w2 \<Rightarrow> w2)
         else w1)"

text \<open>
  Lines 547 to 585, one iteration. What the lines before the inner \<^verbatim>\<open>try\<close> raise leaves
  the loop (\<open>Inl\<close>); what the inner \<^verbatim>\<open>try\<close> raises is caught at line 584.
\<close>

definition root_step ::
  "remote \<Rightarrow> (json \<Rightarrow> string) \<Rightarrow> (string \<times> string) list \<Rightarrow> working \<Rightarrow> json \<Rightarrow> exn + working" where
  "root_step http fmt known w service =
     (case py_get service ''name'' (JStr []) of
        Inl e \<Rightarrow> Inl e
      | Inr service_name \<Rightarrow>
     (case py_get service ''type'' (JStr []) of
        Inl e \<Rightarrow> Inl e
      | Inr service_type \<Rightarrow>
          if served_type service_type
          then (case py_not_in service_name known of
                  Inl e \<Rightarrow> Inl e
                | Inr False \<Rightarrow> Inr w
                | Inr True \<Rightarrow>
                    (let service_url =
                           api_base @ ''/'' @ py_format fmt service_name @ ''/'' @ py_format fmt service_type;
                         service_info = get_service_info http service_url;
                         w1 = probe w service_url
                     in Inr (if truthy service_info
                             then (case root_insert w1 service_name (py_format fmt service_type)
                                          service_url service_info of
                                     Inl e \<Rightarrow> w1
                                   | Inr w2 \<Rightarrow> w2)
                             else w1)))
          else Inr w))"

text \<open>A loop whose body may raise: the working set built so far stays, with the exception.\<close>

fun root_loop ::
  "remote \<Rightarrow> (json \<Rightarrow> string) \<Rightarrow> (string \<times> string) list \<Rightarrow> working \<Rightarrow> json list
     \<Rightarrow> exn option \<times> working" where
  "root_loop http fmt known w [] = (None, w)"
| "root_loop http fmt known w (service # rest) =
     (case root_step http fmt known w service of
        Inl e \<Rightarrow> (Some e, w)
      | Inr w' \<Rightarrow> root_loop http fmt known w' rest)"

text \<open>Lines 594 to 633, one iteration over a folder's services.\<close>

definition folder_service_step ::
  "remote \<Rightarrow> (json \<Rightarrow> string) \<Rightarrow> json \<Rightarrow> working \<Rightarrow> json \<Rightarrow> exn + working" where
  "folder_service_step http fmt folder w service =
     (case py_get service ''name'' (JStr []) of
        Inl e \<Rightarrow> Inl e
      | Inr service_name \<Rightarrow>
     (case py_get service ''type'' (JStr []) of
        Inl e \<Rightarrow> Inl e
      | Inr service_type \<Rightarrow>
          (let full_service_name = py_format fmt folder @ ''/'' @ py_format fmt service_name
           in if served_type service_type
              then (let service_url =
                          api_base @ ''/'' @ full_service_name @ ''/'' @ py_format fmt service_type;
                        service_info = get_service_info http service_url;
                        w1 = probe w service_url
                    in Inr (if truthy service_info
                            then (case folder_insert fmt w1 folder service_name full_service_name
                                         (py_format fmt service_type) service_url service_info of
                                    Inl e \<Rightarrow> w1
                                  | Inr w2 \<Rightarrow> w2)
                            else w1))
              else Inr w)))"

fun folder_services_loop ::
  "remote \<Rightarrow> (json \<Rightarrow> string) \<Rightarrow> json \<Rightarrow> working \<Rightarrow> json list \<Rightarrow> exn option \<times> working" where
  "folder_services_loop http fmt folder w [] = (None, w)"
| "folder_services_loop http fmt folder w (service # rest) =
     (case folder_service_step http fmt folder w service of
        Inl e \<Rightarrow> (Some e, w)
      | Inr w' \<Rightarrow> folder_services_loop http fmt folder w' rest)"

text \<open>
  Lines 588 to 635, one folder: the handler of line 634 catches everything the body
  raises and the loop goes on with the next folder.
\<close>

definition folder_body ::
  "remote \<Rightarrow> (json \<Rightarrow> string) \<Rightarrow> working \<Rightarrow> json \<Rightarrow> exn option \<times> working" where
  "folder_body http fmt w folder =
     (let w1 = w\<lparr>probes := probes w @ [folder_request fmt folder]\<rparr>
      in case http (folder_request fmt folder) of
           Inl e \<Rightarrow> (Some e, w1)
         | Inr folder_response \<Rightarrow>
             if status_code folder_response = 200
             then (case body folder_response of
                     None \<Rightarrow> (Some JSONDecodeError, w1)
                   | Some folder_data \<Rightarrow>
                  (case py_get folder_data ''services'' (JArr []) of
                     Inl e \<Rightarrow> (Some e, w1)
                   | Inr listed \<Rightarrow>
                  (case py_iter listed of
                     Inl e \<Rightarrow> (Some e, w1)
                   | Inr services \<Rightarrow> folder_services_loop http fmt folder w1 services)))
             else (None, w1))"

definition folder_step :: "remote \<Rightarrow> (json \<Rightarrow> string) \<Rightarrow> working \<Rightarrow> json \<Rightarrow> working" where
  "folder_step http fmt w folder = snd (folder_body http fmt w folder)"

text \<open>
  Lines 541 to 636, the body of the \<^verbatim>\<open>try\<close> around the catalog: the request for the root
  catalog, the loop over its services, the loop over its folders.
\<close>

definition discover_catalog ::
  "remote \<Rightarrow> (json \<Rightarrow> string) \<Rightarrow> (string \<times> string) list \<Rightarrow> working \<Rightarrow> exn option \<times> working" where
  "discover_catalog http fmt known w =
     (let w1 = w\<lparr>probes := probes w @ [catalog_request]\<rparr>
      in case http catalog_request of
           Inl e \<Rightarrow> (Some e, w1)
         | Inr services_response \<Rightarrow>
             if status_code services_response = 200
             then (case body services_response of
                     None \<Rightarrow> (Some JSONDecodeError, w1)
                   | Some services_data \<Rightarrow>
                  (case py_get services_data ''services'' (JArr []) of
                     Inl e \<Rightarrow> (Some e, w1)
                   | Inr listed \<Rightarrow>
                  (case py_iter listed of
                     Inl e \<Rightarrow> (Some e, w1)
                   | Inr services \<Rightarrow>
                  (case root_loop http fmt known w1 services of
                     (Some e, w2) \<Rightarrow> (Some e, w2)
                   | (None, w2) \<Rightarrow>
                  (case py_get services_data ''folders'' (JArr []) of
                     Inl e \<Rightarrow> (Some e, w2)
                   | Inr listed_folders \<Rightarrow>
                  (case py_iter listed_folders of
                     Inl e \<Rightarrow> (Some e, w2)
                   | Inr folders \<Rightarrow> (None, foldl (folder_step http fmt) w2 folders)))))))
             else (None, w1))"

subsection \<open>\<^verbatim>\<open>_refresh_datasets\<close>\<close>

text \<open>
  The test of line 496. \<^verbatim>\<open>self.last_refresh\<close> is tested for truth: \<^verbatim>\<open>None\<close> and the
  float \<^verbatim>\<open>0.0\<close> both count as no refresh.
\<close>

definition fresh :: "real \<Rightarrow> bool \<Rightarrow> server_state \<Rightarrow> bool" where
  "fresh now force st \<longleftrightarrow>
     \<not> force \<and> (case last_refresh st of None \<Rightarrow> False | Some t \<Rightarrow> t \<noteq> 0 \<and> now - t < 900)"

text \<open>Lines 502 to 638: the working set the pass builds, starting from two empty dicts.\<close>

definition empty_working :: working where
  "empty_working = \<lparr>all_datasets = [], all_services = [], probes = []\<rparr>"

definition known_pass :: "remote \<Rightarrow> (string \<times> string) list \<Rightarrow> working" where
  "known_pass http known = foldl (known_step http) empty_working known"

definition discovery_pass :: "remote \<Rightarrow> (json \<Rightarrow> string) \<Rightarrow> (string \<times> string) list \<Rightarrow> working" where
  "discovery_pass http fmt known = snd (discover_catalog http fmt known (known_pass http known))"

text \<open>
  \<^verbatim>\<open>_refresh_datasets(force)\<close>. \<open>now\<close> is what \<^verbatim>\<open>time.time()\<close> returns at line 496 and
  \<open>finished\<close> what it returns at line 642. The result is the new state and the requests
  sent. The handler of line 637 drops the exception of \<open>discover_catalog\<close> and the three
  assignments of lines 640 to 642 follow. Every statement of the outer \<^verbatim>\<open>try\<close> that can
  raise stands in one of the inner ones, so the handler of line 646 has nothing to catch.
\<close>

definition refresh_datasets ::
  "remote \<Rightarrow> (json \<Rightarrow> string) \<Rightarrow> real \<Rightarrow> real \<Rightarrow> bool \<Rightarrow> server_state
     \<Rightarrow> server_state \<times> request list" where
  "refresh_datasets http fmt now finished force st =
     (if fresh now force st then (st, [])
      else (let w = discovery_pass http fmt (known_services st)
            in (st\<lparr>cached_datasets := all_datasets w,
                   cached_services := all_services w,
                   last_refresh := Some finished\<rparr>,
                probes w)))"

section \<open>Reading the cache\<close>

subsection \<open>\<^verbatim>\<open>_search_datasets\<close>\<close>

text \<open>
  Lines 662 to 667: name, title, description and the joined tags, joined by single
  spaces and lowered. \<^verbatim>\<open>" ".join\<close> raises on an item that is not a string.
\<close>

definition searchable_text :: "dataset_info \<Rightarrow> exn + string" where
  "searchable_text d =
     (case py_join (ds_tags d) of
        Inl e \<Rightarrow> Inl e
      | Inr tags \<Rightarrow>
     (case py_join [JStr (ds_name d), ds_title d, ds_description d, JStr tags] of
        Inl e \<Rightarrow> Inl e
      | Inr text \<Rightarrow> Inr (lower text)))"

text \<open>Lines 661 to 670: an empty query is not looked for.\<close>

definition text_matches :: "string \<Rightarrow> dataset_info \<Rightarrow> exn + bool" where
  "text_matches query d =
     (if query \<noteq> []
      then (case searchable_text d of
              Inl e \<Rightarrow> Inl e
            | Inr text \<Rightarrow> Inr (sublist (lower query) text))
      else Inr True)"

text \<open>\<^verbatim>\<open>[cat.lower() for cat in ...]\<close>\<close>

fun lowered :: "json list \<Rightarrow> exn + string list" where
  "lowered [] = Inr []"
| "lowered (c # cs) =
     (case py_lower c of
        Inl e \<Rightarrow> Inl e
      | Inr l \<Rightarrow> (case lowered cs of Inl e \<Rightarrow> Inl e | Inr ls \<Rightarrow> Inr (l # ls)))"

text \<open>Lines 672 to 675, for a record that matched the text: \<^verbatim>\<open>None\<close> and \<^verbatim>\<open>""\<close> filter nothing.\<close>

definition category_matches :: "string option \<Rightarrow> dataset_info \<Rightarrow> exn + bool" where
  "category_matches category d =
     (case category of
        None \<Rightarrow> Inr True
      | Some c \<Rightarrow>
          if c \<noteq> []
          then (case lowered (ds_categories d) of
                  Inl e \<Rightarrow> Inl e
                | Inr dataset_categories \<Rightarrow> Inr (lower c \<in> set dataset_categories))
          else Inr True)"

definition dataset_matches :: "string \<Rightarrow> string option \<Rightarrow> dataset_info \<Rightarrow> exn + bool" where
  "dataset_matches query category d =
     (case text_matches query d of
        Inl e \<Rightarrow> Inl e
      | Inr matches \<Rightarrow> if matches then category_matches category d else Inr False)"

text \<open>
  The loop of lines 657 to 680 over the cached records, \<open>results\<close> being the list built
  so far: the length is compared with \<open>limit\<close> after a record has been appended.
\<close>

fun search_loop ::
  "string \<Rightarrow> string option \<Rightarrow> int \<Rightarrow> dataset_info list \<Rightarrow> dataset_info list
     \<Rightarrow> exn + dataset_info list" where
  "search_loop query category limit results [] = Inr results"
| "search_loop query category limit results (d # rest) =
     (case dataset_matches query category d of
        Inl e \<Rightarrow> Inl e
      | Inr matches \<Rightarrow>
          if matches
          then (if int (length (results @ [d])) \<ge> limit
                then Inr (results @ [d])
                else search_loop query category limit (results @ [d]) rest)
          else search_loop query category limit results rest)"

text \<open>The search over a cache, after the refresh of line 652.\<close>

definition search_cache ::
  "string \<Rightarrow> string option \<Rightarrow> int \<Rightarrow> (string \<times> dataset_info) list \<Rightarrow> exn + dataset_info list" where
  "search_cache query category limit cache = search_loop query category limit [] (map snd cache)"

definition search_datasets ::
  "remote \<Rightarrow> (json \<Rightarrow> string) \<Rightarrow> real \<Rightarrow> real \<Rightarrow> string \<Rightarrow> string option \<Rightarrow> int \<Rightarrow> server_state
     \<Rightarrow> (exn + dataset_info list) \<times> server_state \<times> request list" where
  "search_datasets http fmt now finished query category limit st =
     (let refreshed = refresh_datasets http fmt now finished False st
      in (search_cache query category limit (cached_datasets (fst refreshed)),
          fst refreshed, snd refreshed))"

subsection \<open>\<^verbatim>\<open>_get_dataset_info\<close>\<close>




section \<open>Requests built for the remote\<close>

text \<open>
  \<^verbatim>\<open>_spatial_query_by_coordinates\<close>, lines 837 to 864: the request that line 866 sends.
  \<open>dumps\<close> stands for \<^verbatim>\<open>json.dumps\<close>. \<^verbatim>\<open>if buffer_distance:\<close> is a test for truth: \<^verbatim>\<open>None\<close>
  and \<^verbatim>\<open>0\<close> both add nothing.
\<close>

definition spatial_query_request ::
  "(json \<Rightarrow> string) \<Rightarrow> string \<Rightarrow> int \<Rightarrow> real \<Rightarrow> real \<Rightarrow> real \<Rightarrow> real \<Rightarrow> real option \<Rightarrow> int
     \<Rightarrow> request" where
  "spatial_query_request dumps service_url layer_id xmin ymin xmax ymax buffer_distance max_records =
     (let service_url =
            (if service_url \<noteq> [] \<and> last service_url = CHR ''/'' then service_url
             else service_url @ ''/'');
          query_url = service_url @ str_int layer_id @ ''/query'';
          geometry =
            JObj [(''xmin'', JFloat xmin), (''ymin'', JFloat ymin),
                  (''xmax'', JFloat xmax), (''ymax'', JFloat ymax),
                  (''spatialReference'', JObj [(''wkid'', JInt 4326)])];
          params =
            [(''geometry'', JStr (dumps geometry)),
             (''geometryType'', JStr ''esriGeometryEnvelope''),
             (''spatialRel'', JStr ''esriSpatialRelIntersects''),
             (''where'', JStr ''1=1''),
             (''outFields'', JStr ''*''),
             (''returnGeometry'', JStr ''true''),
             (''f'', JStr ''json''),
             (''resultRecordCount'', JInt max_records)];
          params =
            (case buffer_distance of
               None \<Rightarrow> params
             | Some distance \<Rightarrow>
                 if distance \<noteq> 0
                 then dict_set (dict_set params ''distance'' (JFloat distance))
                        ''units'' (JStr ''esriSRUnit_Meter'')
                 else params)
      in \<lparr>req_url = query_url, req_params = params, req_timeout = 60\<rparr>)"

section \<open>Registering a service\<close>

text \<open>
  \<^verbatim>\<open>_add_known_service\<close>: the assignment to the registry, the forced refresh, the message.
  For two strings none of the three statements raises (the refresh catches what it
  meets), so the handler of line 882 has nothing to catch and the value returned is
  always the message of line 880.
\<close>

definition add_known_service ::
  "remote \<Rightarrow> (json \<Rightarrow> string) \<Rightarrow> real \<Rightarrow> real \<Rightarrow> string \<Rightarrow> string \<Rightarrow> server_state
     \<Rightarrow> string \<times> server_state \<times> request list" where
  "add_known_service http fmt now finished service_name service_url st =
     (let st1 = st\<lparr>known_services := dict_set (known_services st) service_name service_url\<rparr>;
          refreshed = refresh_datasets http fmt now finished True st1
      in (''Successfully added service '' @ [CHR 0x27] @ service_name @ [CHR 0x27] @ '' at ''
            @ service_url @ ''. Found '' @ str_int (int (length (cached_datasets (fst refreshed))))
            @ '' total datasets.'',
          fst refreshed, snd refreshed))"

section \<open>Predicates of the statements\<close>

text \<open>A value that is a string, and a record whose searched fields are all strings.\<close>

definition is_str :: "json \<Rightarrow> bool" where
  "is_str j = (case j of JStr s \<Rightarrow> True | _ \<Rightarrow> False)"

definition text_record :: "dataset_info \<Rightarrow> bool" where
  "text_record d \<longleftrightarrow>
     is_str (ds_title d) \<and> is_str (ds_description d) \<and>
     list_all is_str (ds_tags d) \<and> list_all is_str (ds_categories d)"


text \<open>
  What the three loops assign to \<^verbatim>\<open>all_datasets\<close>: a key with the record one of the three
  literals built for it.
\<close>

inductive inserted :: "(json \<Rightarrow> string) \<Rightarrow> string \<Rightarrow> dataset_info \<Rightarrow> bool" for fmt where
  known: "known_dataset_info service_name service_url service_info = Inr d \<Longrightarrow>
            inserted fmt (lower service_name) d"
| root: "root_dataset_info service_name service_type service_url service_info = Inr d \<Longrightarrow>
            service_type = ''FeatureServer'' \<or> service_type = ''MapServer'' \<Longrightarrow>
            inserted fmt (lower service_name) d"
| folder: "folder_dataset_info fmt folder service_name full_service_name
              service_type service_url service_info = Inr d \<Longrightarrow>
            full_service_name = py_format fmt folder @ ''/'' @ py_format fmt service_name \<Longrightarrow>
            service_type = ''FeatureServer'' \<or> service_type = ''MapServer'' \<Longrightarrow>
            inserted fmt (replace_slash (lower full_service_name)) d"

text \<open>
  How a pass changes its working set: by requests sent and by such assignments, nothing
  else.
\<close>

inductive reach :: "(json \<Rightarrow> string) \<Rightarrow> working \<Rightarrow> working \<Rightarrow> bool" for fmt w where
  same: "reach fmt w w"
| sent: "reach fmt w w' \<Longrightarrow> reach fmt w (w'\<lparr>probes := probes w' @ [r]\<rparr>)"
| added: "reach fmt w w' \<Longrightarrow> inserted fmt k d \<Longrightarrow> reach fmt w (add_service w' k d sk e)"

text \<open>
  The request for the root catalog raises, or its answer of status 200 does not parse, or
  is no dict, or lists services that cannot be iterated: the \<^verbatim>\<open>try\<close> of line 541 is left
  before the first listed service is looked at.
\<close>

definition catalog_fails :: "remote \<Rightarrow> bool" where
  "catalog_fails http \<longleftrightarrow>
     (case http catalog_request of
        Inl e \<Rightarrow> True
      | Inr r \<Rightarrow>
          status_code r = 200 \<and>
          (case body r of
             None \<Rightarrow> True
           | Some services_data \<Rightarrow>
               (case py_get services_data ''services'' (JArr []) of
                  Inl e \<Rightarrow> True
                | Inr listed \<Rightarrow> (case py_iter listed of Inl e \<Rightarrow> True | Inr services \<Rightarrow> False))))"

text \<open>
  What \<^verbatim>\<open>_get_service_info\<close> returns for a service that the loops can use: a dict that is
  not empty. Anything else is a probe that failed: \<^verbatim>\<open>None\<close>, a value that is not true, or a
  value without \<^verbatim>\<open>get\<close>.
\<close>

definition usable :: "json \<Rightarrow> bool" where
  "usable service_info \<longleftrightarrow> (case service_info of JObj kvs \<Rightarrow> kvs \<noteq> [] | _ \<Rightarrow> False)"

definition is_obj :: "json \<Rightarrow> bool" where
  "is_obj j \<longleftrightarrow> (case j of JObj kvs \<Rightarrow> True | _ \<Rightarrow> False)"

text \<open>
  An entry of the root catalog's list that lets the loop of line 547 go on: a dict whose
  name can be hashed (line 551 looks it up in the registry).
\<close>

definition root_entry_ok :: "json \<Rightarrow> bool" where
  "root_entry_ok service \<longleftrightarrow>
     (case py_get service ''name'' (JStr []) of
        Inl e \<Rightarrow> False
      | Inr (JArr xs) \<Rightarrow> False
      | Inr (JObj kvs) \<Rightarrow> False
      | Inr _ \<Rightarrow> True)"

text \<open>
  The list that a catalog answer gives under a key, as lines 542 to 547 and 590 to 594
  read it: status 200, a body that parses to a dict, a value that can be iterated.
\<close>

definition listing :: "string \<Rightarrow> exn + response \<Rightarrow> json list option" where
  "listing key answer =
     (case answer of
        Inl e \<Rightarrow> None
      | Inr r \<Rightarrow>
          if status_code r = 200
          then (case body r of
                  None \<Rightarrow> None
                | Some data \<Rightarrow>
                    (case py_get data key (JArr []) of
                       Inl e \<Rightarrow> None
                     | Inr listed \<Rightarrow> (case py_iter listed of Inl e \<Rightarrow> None | Inr xs \<Rightarrow> Some xs)))
          else None)"

definition catalog_services :: "remote \<Rightarrow> json list option" where
  "catalog_services http = listing ''services'' (http catalog_request)"

definition catalog_folders :: "remote \<Rightarrow> json list option" where
  "catalog_folders http = listing ''folders'' (http catalog_request)"

definition folder_services :: "remote \<Rightarrow> (json \<Rightarrow> string) \<Rightarrow> json \<Rightarrow> json list option" where
  "folder_services http fmt folder = listing ''services'' (http (folder_request fmt folder))"

text \<open>The keys of \<^verbatim>\<open>all_datasets\<close>.\<close>

abbreviation dataset_keys :: "working \<Rightarrow> string set" where
  "dataset_keys w \<equiv> fst ` set (all_datasets w)"

section \<open>An example\<close>

text \<open>
  A remote with the registry's service, one service at the root of the catalog and one
  in a folder; the three records a pass builds from it; the state after that pass,
  finished at time 400.
\<close>

definition example_remote :: remote where
  "example_remote req =
     (if req_url req = api_base @ ''/Leases/FeatureServer''
      then Inr \<lparr>status_code = 200,
                body = Some (JObj [(''serviceDescription'', JStr ''Estates''), (''layers'', JArr [])])\<rparr>
      else if req_url req = api_base @ ''?f=json''
      then Inr \<lparr>status_code = 200,
                body = Some (JObj
                  [(''services'', JArr [JObj [(''name'', JStr ''Roads''), (''type'', JStr ''MapServer'')]]),
                   (''folders'', JArr [JStr ''Leases''])])\<rparr>
      else if req_url req = api_base @ ''/Roads/MapServer''
      then Inr \<lparr>status_code = 200,
                body = Some (JObj [(''description'', JStr ''Municipal roads'')])\<rparr>
      else if req_url req = api_base @ ''/Leases?f=json''
      then Inr \<lparr>status_code = 200,
                body = Some (JObj
                  [(''services'', JArr [JObj [(''name'', JStr ''Active''), (''type'', JStr ''FeatureServer'')]])])\<rparr>
      else if req_url req = api_base @ ''/Leases/Active/FeatureServer''
      then Inr \<lparr>status_code = 200, body = Some (JObj [(''layers'', JArr [JInt 0])])\<rparr>
      else Inr \<lparr>status_code = 404, body = None\<rparr>)"

definition offline :: remote where
  "offline req = Inl (HTTPError ''unreachable'')"

definition example_leases :: dataset_info where
  "example_leases =
     \<lparr>ds_id = ''leases'',
      ds_name = ''Leases'',
      ds_title = JStr ''Estates'',
      ds_description = JStr ''Leases feature service from eThekwini municipality'',
      ds_type = ''Feature Service'',
      ds_url = api_base @ ''/Leases/FeatureServer'',
      ds_created = [],
      ds_updated = [],
      ds_tags = [JStr ''eThekwini'', JStr ''municipality'', JStr ''GIS''],
      ds_categories = [JStr ''Municipal Services''],
      ds_owner = JObj [(''name'', JStr ''eThekwini Municipality'')],
      ds_service_info = JObj [(''serviceDescription'', JStr ''Estates''), (''layers'', JArr [])],
      ds_layers = JArr []\<rparr>"

definition example_roads :: dataset_info where
  "example_roads =
     \<lparr>ds_id = ''roads'',
      ds_name = ''Roads'',
      ds_title = JStr ''Roads'',
      ds_description = JStr ''Municipal roads'',
      ds_type = ''MapServer'',
      ds_url = api_base @ ''/Roads/MapServer'',
      ds_created = [],
      ds_updated = [],
      ds_tags = [JStr ''eThekwini'', JStr ''municipality'', JStr ''GIS''],
      ds_categories = [JStr ''Municipal Services''],
      ds_owner = JObj [(''name'', JStr ''eThekwini Municipality'')],
      ds_service_info = JObj [(''description'', JStr ''Municipal roads'')],
      ds_layers = JArr []\<rparr>"

definition example_active :: dataset_info where
  "example_active =
     \<lparr>ds_id = ''leases_active'',
      ds_name = ''Leases/Active'',
      ds_title = JStr ''Active'',
      ds_description = JStr ''Active service from eThekwini municipality'',
      ds_type = ''FeatureServer'',
      ds_url = api_base @ ''/Leases/Active/FeatureServer'',
      ds_created = [],
      ds_updated = [],
      ds_tags = [JStr ''eThekwini'', JStr ''municipality'', JStr ''GIS'', JStr ''Leases''],
      ds_categories = [JStr ''Municipal Services'', JStr ''Leases''],
      ds_owner = JObj [(''name'', JStr ''eThekwini Municipality'')],
      ds_service_info = JObj [(''layers'', JArr [JInt 0])],
      ds_layers = JArr [JInt 0]\<rparr>"

definition example_state :: server_state where
  "example_state = fst (refresh_datasets example_remote (\<lambda>j. []) 0 400 True init_state)"

text \<open>
  The same remote with a root catalog whose answer does not parse; and one whose root
  catalog lists a service \<^verbatim>\<open>LEASES\<close>, which is no key of the registry and lowers to the
  identifier of the registry's \<^verbatim>\<open>Leases\<close>.
\<close>

definition broken_catalog :: remote where
  "broken_catalog req =
     (if req_url req = api_base @ ''?f=json'' then Inr \<lparr>status_code = 200, body = None\<rparr>
      else example_remote req)"


text \<open>
  A remote where the registry's service cannot be reached, one of the two services at
  the root answers 404, the listing of the folder \<^verbatim>\<open>Closed\<close> does not parse, and one of the
  two services of the folder \<^verbatim>\<open>Leases\<close> answers 404.
\<close>

definition flaky_remote :: remote where
  "flaky_remote req =
     (if req_url req = api_base @ ''/Leases/FeatureServer'' then Inl (HTTPError ''connection refused'')
      else if req_url req = api_base @ ''?f=json''
      then Inr \<lparr>status_code = 200,
                body = Some (JObj
                  [(''services'', JArr [JObj [(''name'', JStr ''Parks''), (''type'', JStr ''FeatureServer'')],
                                        JObj [(''name'', JStr ''Roads''), (''type'', JStr ''MapServer'')]]),
                   (''folders'', JArr [JStr ''Closed'', JStr ''Leases''])])\<rparr>
      else if req_url req = api_base @ ''/Closed?f=json''
      then Inr \<lparr>status_code = 200, body = None\<rparr>
      else if req_url req = api_base @ ''/Leases?f=json''
      then Inr \<lparr>status_code = 200,
                body = Some (JObj
                  [(''services'', JArr [JObj [(''name'', JStr ''Gone''), (''type'', JStr ''MapServer'')],
                                        JObj [(''name'', JStr ''Active''), (''type'', JStr ''FeatureServer'')]])])\<rparr>
      else example_remote req)"

section \<open>Lemmas\<close>

subsection \<open>Strings and joins\<close>

lemma strs_of_Inr: "strs_of js = Inr ss \<Longrightarrow> js = map JStr ss"
proof (induction js arbitrary: ss)
  case Nil
  then show ?case by simp
next
  case (Cons j js)
  then show ?case
    by (cases j) (auto split: sum.splits)
qed

lemma strs_of_map [simp]: "strs_of (map JStr ss) = Inr ss"
  by (induction ss) auto

lemma py_join_Inr: "py_join js = Inr s \<Longrightarrow> \<exists>ss. js = map JStr ss \<and> s = join_sp ss"
  by (auto simp: py_join_def split: sum.splits dest: strs_of_Inr)

lemma lowered_Inr: "lowered js = Inr ls \<Longrightarrow> \<exists>ss. js = map JStr ss \<and> ls = map lower ss"
proof (induction js arbitrary: ls)
  case Nil
  then show ?case by simp
next
  case (Cons j js)
  from Cons.prems obtain l ls' where l: "py_lower j = Inr l" and ls': "lowered js = Inr ls'"
    and ls: "ls = l # ls'"
    by (auto split: sum.splits)
  from l obtain s where s: "j = JStr s" "l = lower s"
    by (cases j) auto
  from Cons.IH [OF ls'] obtain ss where "js = map JStr ss \<and> ls' = map lower ss" ..
  with s ls have "j # js = map JStr (s # ss) \<and> ls = map lower (s # ss)"
    by simp
  then show ?case by (rule exI)
qed

lemma lowered_map [simp]: "lowered (map JStr ss) = Inr (map lower ss)"
  by (induction ss) auto

lemma searchable_text_Inr:
  assumes "searchable_text d = Inr text"
  shows "\<exists>title description tags.
           ds_title d = JStr title \<and> ds_description d = JStr description \<and>
           ds_tags d = map JStr tags \<and>
           text = lower (ds_name d @ '' '' @ title @ '' '' @ description @ '' '' @ join_sp tags)"
proof -
  from assms obtain tags joined where
    t: "py_join (ds_tags d) = Inr tags" and
    j: "py_join [JStr (ds_name d), ds_title d, ds_description d, JStr tags] = Inr joined" and
    tx: "text = lower joined"
    by (auto simp: searchable_text_def split: sum.splits)
  from py_join_Inr [OF t] obtain ts where ts: "ds_tags d = map JStr ts \<and> tags = join_sp ts" ..
  from py_join_Inr [OF j] obtain ss where
    ss: "[JStr (ds_name d), ds_title d, ds_description d, JStr tags] = map JStr ss \<and> joined = join_sp ss" ..
  from ss obtain a b c e where "ss = [a, b, c, e]"
    by (auto simp: map_eq_Cons_conv)
  with ss ts tx show ?thesis
    by auto
qed

subsection \<open>The search loop\<close>

lemma search_loop_take:
  "int (length acc) < limit \<Longrightarrow> search_loop query category limit acc ds = Inr rs \<Longrightarrow>
     rs = take (nat limit) (acc @ filter (\<lambda>d. dataset_matches query category d = Inr True) ds)"
proof (induction ds arbitrary: acc)
  case Nil
  then show ?case by simp
next
  case (Cons d ds)
  from Cons.prems(2) obtain m where m: "dataset_matches query category d = Inr m"
    by (cases "dataset_matches query category d") auto
  show ?case
  proof (cases m)
    case False
    with m Cons.prems have "search_loop query category limit acc ds = Inr rs"
      by simp
    from Cons.IH [OF Cons.prems(1) this] m False show ?thesis
      by simp
  next
    case True
    show ?thesis
    proof (cases "limit \<le> int (length acc) + 1")
      case full: True
      with m True Cons.prems have rs: "rs = acc @ [d]"
        by simp
      from full Cons.prems(1) have "nat limit = length acc + 1"
        by linarith
      with rs m True show ?thesis
        by simp
    next
      case more: False
      with m True Cons.prems have "search_loop query category limit (acc @ [d]) ds = Inr rs"
        by simp
      moreover from more have "int (length (acc @ [d])) < limit"
        by simp
      ultimately have "rs = take (nat limit)
          ((acc @ [d]) @ filter (\<lambda>d. dataset_matches query category d = Inr True) ds)"
        by (rule Cons.IH [rotated])
      with m True show ?thesis
        by simp
    qed
  qed
qed

lemma search_loop_total:
  "\<forall>d\<in>set ds. \<exists>m. dataset_matches query category d = Inr m \<Longrightarrow>
     \<exists>rs. search_loop query category limit acc ds = Inr rs"
proof (induction ds arbitrary: acc)
  case Nil
  then show ?case by simp
next
  case (Cons d ds)
  then obtain m where m: "dataset_matches query category d = Inr m"
    by auto
  from Cons have "\<And>acc. \<exists>rs. search_loop query category limit acc ds = Inr rs"
    by simp
  with m show ?case
    by simp
qed

lemma is_str_conv: "is_str j \<longleftrightarrow> (\<exists>s. j = JStr s)"
  by (cases j) (simp_all add: is_str_def)

lemma list_all_is_str: "list_all is_str js \<Longrightarrow> \<exists>ss. js = map JStr ss"
proof (induction js)
  case Nil
  then show ?case by simp
next
  case (Cons j js)
  then obtain s ss where "j = JStr s" "js = map JStr ss"
    by (auto simp: is_str_conv)
  then have "j # js = map JStr (s # ss)"
    by simp
  then show ?case by (rule exI)
qed

lemma text_record_matches:
  assumes "text_record d"
  shows "\<exists>m. dataset_matches query category d = Inr m"
proof -
  from assms obtain title description where td: "ds_title d = JStr title" "ds_description d = JStr description"
    by (auto simp: text_record_def is_str_conv)
  from assms obtain tags where tags: "ds_tags d = map JStr tags"
    using list_all_is_str by (auto simp: text_record_def)
  from assms obtain cats where cats: "ds_categories d = map JStr cats"
    using list_all_is_str by (auto simp: text_record_def)
  from td tags have "\<exists>t. searchable_text d = Inr t"
    by (simp add: searchable_text_def py_join_def)
  then have "\<exists>m. text_matches query d = Inr m"
    by (auto simp: text_matches_def)
  moreover from cats have "\<exists>m. category_matches category d = Inr m"
    by (auto simp: category_matches_def split: option.split)
  ultimately show ?thesis
    by (auto simp: dataset_matches_def)
qed

lemma dataset_matches_True:
  assumes "dataset_matches query category d = Inr True"
  shows "(query \<noteq> [] \<longrightarrow>
            (\<exists>title description tags.
               ds_title d = JStr title \<and> ds_description d = JStr description \<and>
               ds_tags d = map JStr tags \<and>
               sublist (lower query)
                 (lower (ds_name d @ '' '' @ title @ '' '' @ description @ '' '' @ join_sp tags)))) \<and>
         (\<forall>c. category = Some c \<and> c \<noteq> [] \<longrightarrow>
            (\<exists>cats. ds_categories d = map JStr cats \<and> lower c \<in> lower ` set cats))"
proof (intro conjI impI allI)
  assume q: "query \<noteq> []"
  with assms obtain t where t: "searchable_text d = Inr t" and sub: "sublist (lower query) t"
    by (auto simp: dataset_matches_def text_matches_def split: sum.splits if_splits)
  from searchable_text_Inr [OF t] sub
  show "\<exists>title description tags.
               ds_title d = JStr title \<and> ds_description d = JStr description \<and>
               ds_tags d = map JStr tags \<and>
               sublist (lower query)
                 (lower (ds_name d @ '' '' @ title @ '' '' @ description @ '' '' @ join_sp tags))"
    by auto
next
  fix c
  assume c: "category = Some c \<and> c \<noteq> []"
  with assms obtain ls where ls: "lowered (ds_categories d) = Inr ls" and mem: "lower c \<in> set ls"
    by (auto simp: dataset_matches_def category_matches_def split: sum.splits if_splits)
  from lowered_Inr [OF ls] mem
  show "\<exists>cats. ds_categories d = map JStr cats \<and> lower c \<in> lower ` set cats"
    by auto
qed

subsection \<open>The lookup loop\<close>




subsection \<open>Assignments to a dict\<close>

lemma map_of_dict_set: "map_of (dict_set d k v) = (map_of d)(k \<mapsto> v)"
  by (induction d) (auto simp: fun_eq_iff)

lemma keys_dict_set:
  "map fst (dict_set d k v) = (if k \<in> fst ` set d then map fst d else map fst d @ [k])"
proof (induction d)
  case Nil
  show ?case by simp
next
  case (Cons x d)
  show ?case
  proof (cases "fst x = k")
    case True
    then show ?thesis by (cases x) simp
  next
    case False
    with Cons show ?thesis by (cases x) auto
  qed
qed

lemma set_dict_set: "set (dict_set d k v) \<subseteq> insert (k, v) (set d)"
  by (induction d) (auto split: if_splits)

lemma in_dict_set: "(k, v) \<in> set (dict_set d k v)"
  by (induction d) auto


subsection \<open>Every loop of the pass only sends requests and assigns records\<close>

lemma reach_trans: "reach fmt w' w'' \<Longrightarrow> reach fmt w w' \<Longrightarrow> reach fmt w w''"
  by (induction rule: reach.induct) (auto intro: reach.intros)

lemma reach_probe: "reach fmt w (probe w u)"
  unfolding probe_def by (rule reach.sent) (rule reach.same)

lemma reach_known_insert:
  "known_insert w service_name service_url service_info = Inr w' \<Longrightarrow> reach fmt w w'"
  by (auto simp: known_insert_def split: sum.splits intro!: reach.added reach.same inserted.known)

lemma reach_known_step: "reach fmt w (known_step http w item)"
proof -
  have "reach fmt (probe w (snd item)) w'"
    if "known_insert (probe w (snd item)) (fst item) (snd item) (get_service_info http (snd item)) = Inr w'"
    for w'
    using that by (rule reach_known_insert)
  then show ?thesis
    by (auto simp: known_step_def Let_def reach_probe split: sum.splits
        intro: reach_trans [OF _ reach_probe])
qed

lemma reach_known_loop: "reach fmt w (foldl (known_step http) w known)"
proof (induction known arbitrary: w)
  case Nil
  show ?case by (simp add: reach.same)
next
  case (Cons item known)
  have "reach fmt (known_step http w item) (foldl (known_step http) (known_step http w item) known)"
    by (rule Cons.IH)
  then have "reach fmt w (foldl (known_step http) (known_step http w item) known)"
    using reach_known_step by (rule reach_trans)
  then show ?case by simp
qed

lemma served_type_format:
  "served_type service_type \<Longrightarrow>
     py_format fmt service_type = ''FeatureServer'' \<or> py_format fmt service_type = ''MapServer''"
  by (auto simp: served_type_def)

lemma reach_root_insert:
  assumes "root_insert w service_name service_type service_url service_info = Inr w'"
    and "service_type = ''FeatureServer'' \<or> service_type = ''MapServer''"
  shows "reach fmt w w'"
proof (cases service_name)
  case (JStr name)
  with assms(1) obtain d where
    d: "root_dataset_info name service_type service_url service_info = Inr d" and
    w': "w' = add_service w (lower name) d name
           \<lparr>se_name = name, se_url = service_url, se_type = service_type,
            se_dataset_id = lower name, se_info = service_info\<rparr>"
    by (auto split: sum.splits)
  from d assms(2) have "inserted fmt (lower name) d"
    by (rule inserted.root)
  with reach.same show ?thesis
    unfolding w' by (rule reach.added)
qed (use assms(1) in simp_all)

lemma reach_root_step:
  assumes "root_step http fmt known w service = Inr w'"
  shows "reach fmt w w'"
proof -
  have ins: "reach fmt w w2"
    if "root_insert (probe w u) n (py_format fmt t) u i = Inr w2" and "served_type t"
    for n t u i w2
    using reach_root_insert [OF that(1) served_type_format [OF that(2)]] reach_probe
    by (rule reach_trans)
  from assms show ?thesis
    by (auto simp: root_step_def Let_def reach.same reach_probe
        split: sum.splits if_splits bool.splits intro: ins)
qed

lemma reach_root_loop: "reach fmt w (snd (root_loop http fmt known w services))"
proof (induction services arbitrary: w)
  case Nil
  show ?case by (simp add: reach.same)
next
  case (Cons service services)
  show ?case
  proof (cases "root_step http fmt known w service")
    case (Inl e)
    then show ?thesis by (simp add: reach.same)
  next
    case (Inr w')
    from Cons.IH [of w'] reach_root_step [OF Inr] have "reach fmt w (snd (root_loop http fmt known w' services))"
      by (rule reach_trans)
    with Inr show ?thesis by simp
  qed
qed

lemma reach_folder_insert:
  assumes "folder_insert fmt w folder service_name full_service_name
             service_type service_url service_info = Inr w'"
    and full: "full_service_name = py_format fmt folder @ ''/'' @ py_format fmt service_name"
    and served: "service_type = ''FeatureServer'' \<or> service_type = ''MapServer''"
  shows "reach fmt w w'"
proof -
  from assms(1) obtain d where
    d: "folder_dataset_info fmt folder service_name full_service_name service_type service_url
          service_info = Inr d" and
    w': "w' = add_service w (replace_slash (lower full_service_name)) d full_service_name
           \<lparr>se_name = full_service_name, se_url = service_url, se_type = service_type,
            se_dataset_id = replace_slash (lower full_service_name), se_info = service_info\<rparr>"
    by (auto simp: folder_insert_def split: sum.splits)
  from d full served have "inserted fmt (replace_slash (lower full_service_name)) d"
    by (rule inserted.folder)
  with reach.same show ?thesis
    unfolding w' by (rule reach.added)
qed

lemma reach_folder_service_step:
  assumes "folder_service_step http fmt folder w service = Inr w'"
  shows "reach fmt w w'"
proof -
  have ins: "reach fmt w w2"
    if "folder_insert fmt (probe w u) folder n full (py_format fmt t) u i = Inr w2"
      and "full = py_format fmt folder @ ''/'' @ py_format fmt n"
      and "served_type t"
    for n t u i w2 full
    using reach_folder_insert [OF that(1,2) served_type_format [OF that(3)]] reach_probe
    by (rule reach_trans)
  from assms show ?thesis
    by (auto simp: folder_service_step_def Let_def reach.same reach_probe
        simp del: append.simps append_Cons
        split: sum.splits if_splits intro: ins)
qed

lemma reach_folder_services_loop:
  "reach fmt w (snd (folder_services_loop http fmt folder w services))"
proof (induction services arbitrary: w)
  case Nil
  show ?case by (simp add: reach.same)
next
  case (Cons service services)
  show ?case
  proof (cases "folder_service_step http fmt folder w service")
    case (Inl e)
    then show ?thesis by (simp add: reach.same)
  next
    case (Inr w')
    from Cons.IH [of w'] reach_folder_service_step [OF Inr]
    have "reach fmt w (snd (folder_services_loop http fmt folder w' services))"
      by (rule reach_trans)
    with Inr show ?thesis by simp
  qed
qed

lemma reach_request: "reach fmt w (w\<lparr>probes := probes w @ [r]\<rparr>)"
  by (rule reach.sent) (rule reach.same)

lemma reach_folder_step: "reach fmt w (folder_step http fmt w folder)"
proof -
  have "reach fmt w (snd (folder_services_loop http fmt folder
          (w\<lparr>probes := probes w @ [folder_request fmt folder]\<rparr>) services))" for services
    using reach_folder_services_loop reach_request by (rule reach_trans)
  then show ?thesis
    by (auto simp: folder_step_def folder_body_def Let_def reach_request
        split: sum.splits option.splits)
qed

lemma reach_folder_loop: "reach fmt w (foldl (folder_step http fmt) w folders)"
proof (induction folders arbitrary: w)
  case Nil
  show ?case by (simp add: reach.same)
next
  case (Cons folder folders)
  have "reach fmt (folder_step http fmt w folder)
          (foldl (folder_step http fmt) (folder_step http fmt w folder) folders)"
    by (rule Cons.IH)
  then have "reach fmt w (foldl (folder_step http fmt) (folder_step http fmt w folder) folders)"
    using reach_folder_step by (rule reach_trans)
  then show ?case by simp
qed

lemma reach_discover_catalog: "reach fmt w (snd (discover_catalog http fmt known w))"
proof -
  let ?w1 = "w\<lparr>probes := probes w @ [catalog_request]\<rparr>"
  have r: "reach fmt w (snd (root_loop http fmt known ?w1 services))" for services
    using reach_root_loop reach_request by (rule reach_trans)
  have f: "reach fmt w (foldl (folder_step http fmt) w2 folders)"
    if "root_loop http fmt known ?w1 services = (x, w2)" for services folders x w2
  proof -
    from r [of services] that have "reach fmt w w2" by simp
    with reach_folder_loop show ?thesis by (rule reach_trans)
  qed
  show ?thesis
    using r
    by (auto simp: discover_catalog_def Let_def reach_request
        split: sum.splits option.splits prod.splits intro: f)
       (metis snd_conv)+
qed

lemma reach_discovery_pass: "reach fmt empty_working (discovery_pass http fmt known)"
  unfolding discovery_pass_def known_pass_def
  using reach_discover_catalog reach_known_loop by (rule reach_trans)

subsection \<open>What follows for the working set of a pass\<close>

lemma reach_invariant:
  assumes "reach fmt w w'"
    and "Q (all_datasets w)"
    and "\<And>ds k d. Q ds \<Longrightarrow> inserted fmt k d \<Longrightarrow> Q (dict_set ds k d)"
  shows "Q (all_datasets w')"
  using assms by (induction rule: reach.induct) (simp_all add: add_service_def)

lemma reach_keys:
  "reach fmt w w' \<Longrightarrow> fst ` set (all_datasets w) \<subseteq> fst ` set (all_datasets w')"
proof (induction rule: reach.induct)
  case same
  show ?case by simp
next
  case (sent w' r)
  then show ?case by simp
next
  case (added w' k d sk e)
  have "fst ` set (all_datasets w') \<subseteq> fst ` set (dict_set (all_datasets w') k d)"
    using keys_dict_set [of "all_datasets w'" k d]
    by (metis (no_types, lifting) list.set_map set_append subset_refl sup_ge1)
  with added show ?case
    by (auto simp: add_service_def)
qed

lemma reach_probes: "reach fmt w w' \<Longrightarrow> prefix (probes w) (probes w')"
  by (induction rule: reach.induct) (auto simp: add_service_def intro: prefix_order.trans)

lemma pass_records:
  "\<forall>kd\<in>set (all_datasets (discovery_pass http fmt known)). inserted fmt (fst kd) (snd kd)"
proof (rule reach_invariant [OF reach_discovery_pass])
  show "\<forall>kd\<in>set (all_datasets empty_working). inserted fmt (fst kd) (snd kd)"
    by (simp add: empty_working_def)
next
  fix ds :: "(string \<times> dataset_info) list" and k d
  assume "\<forall>kd\<in>set ds. inserted fmt (fst kd) (snd kd)" and "inserted fmt k d"
  with set_dict_set [of ds k d] show "\<forall>kd\<in>set (dict_set ds k d). inserted fmt (fst kd) (snd kd)"
    by auto
qed


lemma inserted_id: "inserted fmt k d \<Longrightarrow> ds_id d = k"
  by (induction rule: inserted.induct)
     (auto simp: known_dataset_info_def root_dataset_info_def folder_dataset_info_def
       split: sum.splits)

subsection \<open>A failing root catalog\<close>

lemma discover_catalog_fails:
  assumes "catalog_fails http"
  shows "snd (discover_catalog http fmt known w) = w\<lparr>probes := probes w @ [catalog_request]\<rparr>"
proof (cases "http catalog_request")
  case (Inl e)
  then show ?thesis
    by (simp add: discover_catalog_def Let_def)
next
  case (Inr r)
  with assms have ok: "status_code r = 200"
    by (simp add: catalog_fails_def)
  show ?thesis
  proof (cases "body r")
    case None
    with Inr ok show ?thesis
      by (simp add: discover_catalog_def Let_def)
  next
    case (Some services_data)
    show ?thesis
    proof (cases "py_get services_data ''services'' (JArr [])")
      case (Inl e)
      with Inr ok Some show ?thesis
        by (simp add: discover_catalog_def Let_def)
    next
      case listed: (Inr listed)
      with assms Inr Some obtain e where "py_iter listed = Inl e"
        by (cases "py_iter listed") (simp_all add: catalog_fails_def)
      with Inr ok Some listed show ?thesis
        by (simp add: discover_catalog_def Let_def)
    qed
  qed
qed

subsection \<open>The records of a pass, by the loop that built them\<close>


lemma inserted_kind:
  assumes "inserted fmt k d"
  shows "(ds_type d = ''Feature Service'' \<and> ds_categories d = [JStr ''Municipal Services''] \<and>
            ds_id d = lower (ds_name d) \<and>
            (\<forall>kvs. ds_service_info d = JObj kvs \<and> map_of kvs ''description'' = None \<longrightarrow>
               ds_description d = JStr (ds_name d @ '' feature service from eThekwini municipality''))) \<or>
         (ds_type d \<in> {''FeatureServer'', ''MapServer''} \<and>
            ds_categories d = [JStr ''Municipal Services''] \<and>
            ds_id d = lower (ds_name d) \<and>
            (\<forall>kvs. ds_service_info d = JObj kvs \<and> map_of kvs ''description'' = None \<longrightarrow>
               ds_description d = JStr (ds_name d @ '' service from eThekwini municipality''))) \<or>
         (\<exists>folder service_name.
            ds_type d \<in> {''FeatureServer'', ''MapServer''} \<and>
            ds_categories d = [JStr ''Municipal Services'', folder] \<and>
            ds_name d = py_format fmt folder @ ''/'' @ py_format fmt service_name \<and>
            ds_id d = replace_slash (lower (ds_name d)) \<and>
            (\<forall>kvs. ds_service_info d = JObj kvs \<and> map_of kvs ''description'' = None \<longrightarrow>
               ds_description d =
                 JStr (py_format fmt service_name @ '' service from eThekwini municipality'')))"
  using assms
proof (cases rule: inserted.cases)
  case (known service_name service_url service_info)
  then have "ds_type d = ''Feature Service'' \<and> ds_categories d = [JStr ''Municipal Services''] \<and>
            ds_id d = lower (ds_name d) \<and>
            (\<forall>kvs. ds_service_info d = JObj kvs \<and> map_of kvs ''description'' = None \<longrightarrow>
               ds_description d = JStr (ds_name d @ '' feature service from eThekwini municipality''))"
    by (cases service_info) (auto simp: known_dataset_info_def)
  then show ?thesis
    by (rule disjI1)
next
  case (root service_name service_type service_url service_info)
  from root(2) have "ds_type d = service_type \<and>
            ds_categories d = [JStr ''Municipal Services''] \<and>
            ds_id d = lower (ds_name d) \<and>
            (\<forall>kvs. ds_service_info d = JObj kvs \<and> map_of kvs ''description'' = None \<longrightarrow>
               ds_description d = JStr (ds_name d @ '' service from eThekwini municipality''))"
    by (cases service_info) (auto simp: root_dataset_info_def)
  with root(3) have "ds_type d \<in> {''FeatureServer'', ''MapServer''} \<and>
            ds_categories d = [JStr ''Municipal Services''] \<and>
            ds_id d = lower (ds_name d) \<and>
            (\<forall>kvs. ds_service_info d = JObj kvs \<and> map_of kvs ''description'' = None \<longrightarrow>
               ds_description d = JStr (ds_name d @ '' service from eThekwini municipality''))"
    by simp
  then show ?thesis
    by (intro disjI2 disjI1)
next
  case (folder folder service_name full_service_name service_type service_url service_info)
  from folder(2) have "ds_categories d = [JStr ''Municipal Services'', folder] \<and>
      ds_name d = full_service_name \<and> ds_type d = service_type \<and>
      ds_id d = replace_slash (lower full_service_name) \<and>
      (\<forall>kvs. ds_service_info d = JObj kvs \<and> map_of kvs ''description'' = None \<longrightarrow>
         ds_description d =
           JStr (py_format fmt service_name @ '' service from eThekwini municipality''))"
    by (cases service_info) (auto simp: folder_dataset_info_def)
  with folder(3,4) have "\<exists>folder service_name.
            ds_type d \<in> {''FeatureServer'', ''MapServer''} \<and>
            ds_categories d = [JStr ''Municipal Services'', folder] \<and>
            ds_name d = py_format fmt folder @ ''/'' @ py_format fmt service_name \<and>
            ds_id d = replace_slash (lower (ds_name d)) \<and>
            (\<forall>kvs. ds_service_info d = JObj kvs \<and> map_of kvs ''description'' = None \<longrightarrow>
               ds_description d =
                 JStr (py_format fmt service_name @ '' service from eThekwini municipality''))"
    by (intro exI [of _ folder] exI [of _ service_name]) simp
  then show ?thesis
    by (intro disjI2)
qed

lemma refreshed_records:
  assumes "\<not> fresh now force st"
    and "(k, d) \<in> set (cached_datasets (fst (refresh_datasets http fmt now finished force st)))"
  shows "inserted fmt k d"
proof -
  from assms have "(k, d) \<in> set (all_datasets (discovery_pass http fmt (known_services st)))"
    by (simp add: refresh_datasets_def Let_def)
  with pass_records [of http fmt "known_services st"] show ?thesis
    by auto
qed

subsection \<open>The requests of a pass\<close>

lemma known_step_probes:
  "service_info_request (snd item) \<in> set (probes (known_step http w item))"
  by (auto simp: known_step_def Let_def probe_def known_insert_def add_service_def
      split: sum.splits)

lemma known_loop_probes:
  "item \<in> set known \<Longrightarrow>
     service_info_request (snd item) \<in> set (probes (foldl (known_step http) w known))"
proof (induction known arbitrary: w)
  case Nil
  then show ?case by simp
next
  case (Cons x known)
  show ?case
  proof (cases "item = x")
    case True
    have "prefix (probes (known_step http w x))
            (probes (foldl (known_step http) (known_step http w x) known))"
      using reach_known_loop by (rule reach_probes)
    with known_step_probes [of x http w] True show ?thesis
      by (auto dest: set_mono_prefix)
  next
    case False
    with Cons.prems have "item \<in> set known"
      by simp
    from Cons.IH [OF this] show ?thesis
      by simp
  qed
qed

lemma pass_probes_known:
  assumes "item \<in> set known"
  shows "service_info_request (snd item) \<in> set (probes (discovery_pass http fmt known))"
proof -
  have "prefix (probes (known_pass http known)) (probes (discovery_pass http fmt known))"
    unfolding discovery_pass_def using reach_discover_catalog by (rule reach_probes)
  with known_loop_probes [OF assms, of http empty_working] show ?thesis
    by (auto simp: known_pass_def dest: set_mono_prefix)
qed

subsection \<open>A service whose own probe succeeds is assigned\<close>

lemma key_dict_set: "k \<in> fst ` set (dict_set d k v)"
  using in_dict_set [of k v d] by force

lemma usable_obj: "usable info \<Longrightarrow> \<exists>kvs. info = JObj kvs \<and> truthy info"
  by (cases info) (simp_all add: usable_def)

lemma known_step_inserts:
  assumes "usable (get_service_info http (snd item))"
  shows "lower (fst item) \<in> dataset_keys (known_step http w item)"
proof -
  from usable_obj [OF assms] obtain kvs where
    info: "get_service_info http (snd item) = JObj kvs" and t: "truthy (get_service_info http (snd item))"
    by blast
  then show ?thesis
    by (simp add: known_step_def Let_def known_insert_def known_dataset_info_def add_service_def
        key_dict_set)
qed

lemma known_loop_inserts:
  "item \<in> set known \<Longrightarrow> usable (get_service_info http (snd item)) \<Longrightarrow>
     lower (fst item) \<in> dataset_keys (foldl (known_step http) w known)"
proof (induction known arbitrary: w)
  case Nil
  then show ?case by simp
next
  case (Cons x known)
  show ?case
  proof (cases "item = x")
    case True
    have "dataset_keys (known_step http w x)
            \<subseteq> dataset_keys (foldl (known_step http) (known_step http w x) known)"
      using reach_known_loop by (rule reach_keys)
    with known_step_inserts [OF Cons.prems(2), of w] True show ?thesis
      by auto
  next
    case False
    with Cons.prems have "item \<in> set known"
      by simp
    from Cons.IH [OF this Cons.prems(2)] show ?thesis
      by simp
  qed
qed

lemma pass_keeps_known_keys:
  "dataset_keys (known_pass http known) \<subseteq> dataset_keys (discovery_pass http fmt known)"
  unfolding discovery_pass_def using reach_discover_catalog by (rule reach_keys)

lemma root_step_ok:
  assumes "root_entry_ok service"
  shows "\<exists>w'. root_step http fmt known w service = Inr w'"
proof -
  from assms obtain kvs where s: "service = JObj kvs"
    by (cases service) (simp_all add: root_entry_ok_def)
  obtain name where n: "py_get service ''name'' (JStr []) = Inr name"
    by (simp add: s)
  obtain type where ty: "py_get service ''type'' (JStr []) = Inr type"
    by (simp add: s)
  from assms n obtain b where "py_not_in name known = Inr b"
    by (cases name) (simp_all add: root_entry_ok_def)
  with n ty show ?thesis
    by (cases b) (simp_all add: root_step_def Let_def)
qed

lemma root_step_inserts:
  assumes "py_get service ''name'' (JStr []) = Inr (JStr name)"
    and "py_get service ''type'' (JStr []) = Inr (JStr type)"
    and "type \<in> {''FeatureServer'', ''MapServer''}"
    and "name \<notin> fst ` set known"
    and "usable (get_service_info http (api_base @ ''/'' @ name @ ''/'' @ type))"
  shows "\<exists>w'. root_step http fmt known w service = Inr w' \<and> lower name \<in> dataset_keys w'"
proof -
  let ?url = "api_base @ ''/'' @ name @ ''/'' @ type"
  from usable_obj [OF assms(5)] obtain kvs where
    info: "get_service_info http ?url = JObj kvs" and t: "truthy (get_service_info http ?url)"
    by blast
  from assms(3) have served: "served_type (JStr type)"
    by (auto simp: served_type_def)
  from info t have ins: "\<exists>w2. root_insert (probe w ?url) (JStr name) type ?url (get_service_info http ?url) = Inr w2
      \<and> lower name \<in> dataset_keys w2"
    by (simp add: root_dataset_info_def add_service_def key_dict_set)
  then obtain w2 where
    w2: "root_insert (probe w ?url) (JStr name) type ?url (get_service_info http ?url) = Inr w2"
    and k: "lower name \<in> dataset_keys w2"
    by blast
  from assms(1,2,4) served t w2 have "root_step http fmt known w service = Inr w2"
    by (simp add: root_step_def Let_def)
  with k show ?thesis
    by blast
qed

lemma root_loop_ok:
  "\<forall>s\<in>set services. root_entry_ok s \<Longrightarrow> fst (root_loop http fmt known w services) = None"
proof (induction services arbitrary: w)
  case Nil
  show ?case by simp
next
  case (Cons s services)
  then obtain w' where "root_step http fmt known w s = Inr w'"
    using root_step_ok [of s http fmt known w] by auto
  with Cons show ?case
    by simp
qed

lemma root_loop_inserts:
  assumes "\<forall>s\<in>set services. root_entry_ok s"
    and "service \<in> set services"
    and "py_get service ''name'' (JStr []) = Inr (JStr name)"
    and "py_get service ''type'' (JStr []) = Inr (JStr type)"
    and "type \<in> {''FeatureServer'', ''MapServer''}"
    and "name \<notin> fst ` set known"
    and "usable (get_service_info http (api_base @ ''/'' @ name @ ''/'' @ type))"
  shows "lower name \<in> dataset_keys (snd (root_loop http fmt known w services))"
  using assms(1,2)
proof (induction services arbitrary: w)
  case Nil
  then show ?case by simp
next
  case (Cons s services)
  show ?case
  proof (cases "service = s")
    case True
    from root_step_inserts [OF assms(3-7), of fmt w] obtain w' where
      w': "root_step http fmt known w service = Inr w'" and k: "lower name \<in> dataset_keys w'"
      by blast
    have "dataset_keys w' \<subseteq> dataset_keys (snd (root_loop http fmt known w' services))"
      using reach_root_loop by (rule reach_keys)
    with w' k True show ?thesis
      by auto
  next
    case False
    with Cons.prems have in_rest: "service \<in> set services" and ok: "\<forall>s\<in>set services. root_entry_ok s"
      by simp_all
    from Cons.prems obtain w' where w': "root_step http fmt known w s = Inr w'"
      using root_step_ok [of s http fmt known w] by auto
    from Cons.IH [OF ok in_rest, of w'] w' show ?thesis
      by simp
  qed
qed

lemma is_obj_get: "is_obj service \<Longrightarrow> \<exists>v. py_get service key dflt = Inr v"
  by (cases service) (simp_all add: is_obj_def)

lemma folder_service_step_ok:
  assumes "is_obj service"
  shows "\<exists>w'. folder_service_step http fmt folder w service = Inr w'"
proof -
  from is_obj_get [OF assms] obtain name where n: "py_get service ''name'' (JStr []) = Inr name"
    by blast
  from is_obj_get [OF assms] obtain type where ty: "py_get service ''type'' (JStr []) = Inr type"
    by blast
  from n ty show ?thesis
    by (simp add: folder_service_step_def Let_def)
qed

lemma folder_service_step_inserts:
  assumes "py_get service ''name'' (JStr []) = Inr name"
    and "py_get service ''type'' (JStr []) = Inr (JStr type)"
    and "type \<in> {''FeatureServer'', ''MapServer''}"
    and "usable (get_service_info http
           (api_base @ ''/'' @ py_format fmt folder @ ''/'' @ py_format fmt name @ ''/'' @ type))"
  shows "\<exists>w'. folder_service_step http fmt folder w service = Inr w' \<and>
           replace_slash (lower (py_format fmt folder @ ''/'' @ py_format fmt name)) \<in> dataset_keys w'"
proof -
  let ?full = "py_format fmt folder @ ''/'' @ py_format fmt name"
  let ?url = "api_base @ ''/'' @ ?full @ ''/'' @ type"
  from assms(4) have "usable (get_service_info http ?url)"
    by simp
  from usable_obj [OF this] obtain kvs where
    info: "get_service_info http ?url = JObj kvs" and t: "truthy (get_service_info http ?url)"
    by blast
  from assms(3) have served: "served_type (JStr type)"
    by (auto simp: served_type_def)
  from info obtain w2 where
    w2: "folder_insert fmt (probe w ?url) folder name ?full type ?url (get_service_info http ?url) = Inr w2"
    and k: "replace_slash (lower ?full) \<in> dataset_keys w2"
    by (simp add: folder_insert_def folder_dataset_info_def add_service_def key_dict_set)
  from assms(1,2) served t w2 have "folder_service_step http fmt folder w service = Inr w2"
    by (simp add: folder_service_step_def Let_def)
  with k show ?thesis
    by blast
qed

lemma folder_services_loop_inserts:
  assumes "\<forall>s\<in>set services. is_obj s"
    and "service \<in> set services"
    and "py_get service ''name'' (JStr []) = Inr name"
    and "py_get service ''type'' (JStr []) = Inr (JStr type)"
    and "type \<in> {''FeatureServer'', ''MapServer''}"
    and "usable (get_service_info http
           (api_base @ ''/'' @ py_format fmt folder @ ''/'' @ py_format fmt name @ ''/'' @ type))"
  shows "replace_slash (lower (py_format fmt folder @ ''/'' @ py_format fmt name))
           \<in> dataset_keys (snd (folder_services_loop http fmt folder w services))"
  using assms(1,2)
proof (induction services arbitrary: w)
  case Nil
  then show ?case by simp
next
  case (Cons s services)
  show ?case
  proof (cases "service = s")
    case True
    from folder_service_step_inserts [OF assms(3-6), of w] obtain w' where
      w': "folder_service_step http fmt folder w service = Inr w'" and
      k: "replace_slash (lower (py_format fmt folder @ ''/'' @ py_format fmt name)) \<in> dataset_keys w'"
      by blast
    have "dataset_keys w' \<subseteq> dataset_keys (snd (folder_services_loop http fmt folder w' services))"
      using reach_folder_services_loop by (rule reach_keys)
    with w' k True show ?thesis
      by auto
  next
    case False
    with Cons.prems have in_rest: "service \<in> set services" and ok: "\<forall>s\<in>set services. is_obj s"
      by simp_all
    from Cons.prems obtain w' where w': "folder_service_step http fmt folder w s = Inr w'"
      using folder_service_step_ok [of s http fmt folder w] by auto
    from Cons.IH [OF ok in_rest, of w'] w' show ?thesis
      by simp
  qed
qed

lemma listing_Some:
  assumes "listing key answer = Some xs"
  shows "\<exists>r data listed. answer = Inr r \<and> status_code r = 200 \<and> body r = Some data \<and>
           py_get data key (JArr []) = Inr listed \<and> py_iter listed = Inr xs"
  using assms by (auto simp: listing_def split: sum.splits if_splits option.splits)

lemma folder_step_services:
  assumes "folder_services http fmt folder = Some services"
  shows "folder_step http fmt w folder =
           snd (folder_services_loop http fmt folder
                  (w\<lparr>probes := probes w @ [folder_request fmt folder]\<rparr>) services)"
proof -
  from listing_Some [OF assms [unfolded folder_services_def]] obtain r data listed where
    "http (folder_request fmt folder) = Inr r" "status_code r = 200" "body r = Some data"
    "py_get data ''services'' (JArr []) = Inr listed" "py_iter listed = Inr services"
    by blast
  then show ?thesis
    by (simp add: folder_step_def folder_body_def Let_def)
qed

lemma folder_loop_inserts:
  assumes "folder \<in> set folders"
    and "folder_services http fmt folder = Some services"
    and "\<forall>s\<in>set services. is_obj s"
    and "service \<in> set services"
    and "py_get service ''name'' (JStr []) = Inr name"
    and "py_get service ''type'' (JStr []) = Inr (JStr type)"
    and "type \<in> {''FeatureServer'', ''MapServer''}"
    and "usable (get_service_info http
           (api_base @ ''/'' @ py_format fmt folder @ ''/'' @ py_format fmt name @ ''/'' @ type))"
  shows "replace_slash (lower (py_format fmt folder @ ''/'' @ py_format fmt name))
           \<in> dataset_keys (foldl (folder_step http fmt) w folders)"
  using assms(1)
proof (induction folders arbitrary: w)
  case Nil
  then show ?case by simp
next
  case (Cons f folders)
  show ?case
  proof (cases "folder = f")
    case True
    have "replace_slash (lower (py_format fmt folder @ ''/'' @ py_format fmt name))
            \<in> dataset_keys (folder_step http fmt w folder)"
      unfolding folder_step_services [OF assms(2)]
      by (rule folder_services_loop_inserts [OF assms(3-8)])
    moreover have "dataset_keys (folder_step http fmt w folder)
            \<subseteq> dataset_keys (foldl (folder_step http fmt) (folder_step http fmt w folder) folders)"
      using reach_folder_loop by (rule reach_keys)
    ultimately show ?thesis
      using True by auto
  next
    case False
    with Cons.prems have "folder \<in> set folders"
      by simp
    from Cons.IH [OF this] show ?thesis
      by simp
  qed
qed

lemma discover_catalog_services:
  assumes "catalog_services http = Some services"
  shows "dataset_keys (snd (root_loop http fmt known (w\<lparr>probes := probes w @ [catalog_request]\<rparr>) services))
           \<subseteq> dataset_keys (snd (discover_catalog http fmt known w))"
proof -
  let ?w1 = "w\<lparr>probes := probes w @ [catalog_request]\<rparr>"
  from listing_Some [OF assms [unfolded catalog_services_def]] obtain r data listed where
    c: "http catalog_request = Inr r" "status_code r = 200" "body r = Some data"
    "py_get data ''services'' (JArr []) = Inr listed" "py_iter listed = Inr services"
    by blast
  obtain x w2 where rl: "root_loop http fmt known ?w1 services = (x, w2)"
    by (cases "root_loop http fmt known ?w1 services")
  have "reach fmt w2 (snd (discover_catalog http fmt known w))"
  proof (cases x)
    case (Some e)
    with c rl show ?thesis
      by (simp add: discover_catalog_def Let_def reach.same)
  next
    case None
    with c rl show ?thesis
      by (auto simp: discover_catalog_def Let_def reach.same reach_folder_loop split: sum.splits)
  qed
  from reach_keys [OF this] rl show ?thesis
    by simp
qed

lemma discover_catalog_folders:
  assumes "catalog_services http = Some services"
    and "\<forall>s\<in>set services. root_entry_ok s"
    and "catalog_folders http = Some folders"
  shows "snd (discover_catalog http fmt known w) =
           foldl (folder_step http fmt)
             (snd (root_loop http fmt known (w\<lparr>probes := probes w @ [catalog_request]\<rparr>) services))
             folders"
proof -
  let ?w1 = "w\<lparr>probes := probes w @ [catalog_request]\<rparr>"
  from listing_Some [OF assms(1) [unfolded catalog_services_def]] obtain r data listed where
    c: "http catalog_request = Inr r" "status_code r = 200" "body r = Some data"
    "py_get data ''services'' (JArr []) = Inr listed" "py_iter listed = Inr services"
    by blast
  from listing_Some [OF assms(3) [unfolded catalog_folders_def]] c obtain listed_folders where
    f: "py_get data ''folders'' (JArr []) = Inr listed_folders" "py_iter listed_folders = Inr folders"
    by auto
  obtain w2 where rl: "root_loop http fmt known ?w1 services = (None, w2)"
    using root_loop_ok [OF assms(2), of http fmt known ?w1]
    by (cases "root_loop http fmt known ?w1 services") auto
  with c f show ?thesis
    by (simp add: discover_catalog_def Let_def)
qed

subsection \<open>Evaluating the example\<close>

lemma char_eq_char_of: "c = char_of (n::nat) \<longleftrightarrow> take_bit 8 n = of_char c"
  using char_of_eq_iff [of n c] by auto

lemmas lower_eval = lower_def lower_char_def char_of_eq_iff char_eq_char_of

lemma example_cache:
  "cached_datasets example_state =
     [(''leases'', example_leases), (''roads'', example_roads), (''leases_active'', example_active)]"
  by code_simp

lemma example_last_refresh: "last_refresh example_state = Some 400"
  by (simp add: example_state_def refresh_datasets_def fresh_def Let_def)

lemma example_fresh:
  "refresh_datasets http fmt 500 finished False example_state = (example_state, [])"
  by (simp add: refresh_datasets_def fresh_def example_last_refresh)

lemmas search_defs =
  search_datasets_def search_cache_def dataset_matches_def text_matches_def category_matches_def
  searchable_text_def py_join_def lower_eval
  sublist_Cons_right prefix_Cons

lemma broken_known_pass:
  "all_datasets (known_pass broken_catalog (known_services example_state)) = [(''leases'', example_leases)]"
  by code_simp


lemma flaky_listing:
  "catalog_services flaky_remote =
     Some [JObj [(''name'', JStr ''Parks''), (''type'', JStr ''FeatureServer'')],
           JObj [(''name'', JStr ''Roads''), (''type'', JStr ''MapServer'')]]"
  "catalog_folders flaky_remote = Some [JStr ''Closed'', JStr ''Leases'']"
  "folder_services flaky_remote (\<lambda>j. []) (JStr ''Closed'') = None"
  "folder_services flaky_remote (\<lambda>j. []) (JStr ''Leases'') =
     Some [JObj [(''name'', JStr ''Gone''), (''type'', JStr ''MapServer'')],
           JObj [(''name'', JStr ''Active''), (''type'', JStr ''FeatureServer'')]]"
  by code_simp+

lemma flaky_probes:
  "\<not> usable (get_service_info flaky_remote (api_base @ ''/Leases/FeatureServer''))"
  "\<not> usable (get_service_info flaky_remote (api_base @ ''/Parks/FeatureServer''))"
  "\<not> usable (get_service_info flaky_remote (api_base @ ''/Leases/Gone/MapServer''))"
  "usable (get_service_info flaky_remote (api_base @ ''/'' @ ''Roads'' @ ''/'' @ ''MapServer''))"
  "usable (get_service_info flaky_remote
     (api_base @ ''/'' @ py_format (\<lambda>j. []) (JStr ''Leases'') @ ''/'' @ py_format (\<lambda>j. []) (JStr ''Active'')
        @ ''/'' @ ''FeatureServer''))"
  by code_simp+

lemma lower_roads: "lower ''Roads'' = ''roads''"
  by code_simp

lemma flaky_active_key:
  "replace_slash (lower (py_format (\<lambda>j. []) (JStr ''Leases'') @ ''/'' @ py_format (\<lambda>j. []) (JStr ''Active'')))
     = ''leases_active''"
  by code_simp

section \<open>The claims\<close>

subsection \<open>The staleness gate\<close>

text \<open>
  C1. A call \<^verbatim>\<open>_refresh_datasets(force=False)\<close> made less than 900 seconds after the time
  \<open>t\<close> that the last pass stored sends no request and returns the state as it was, and so
  does a second such call after it, whatever the remote would answer. Line 496 tests the
  stored time for truth, so \<open>t\<close> is a clock reading other than \<^verbatim>\<open>0.0\<close>, as every reading
  of \<^verbatim>\<open>time.time()\<close> is after the first instant of 1970.
\<close>

theorem refresh_datasets_fresh:
  assumes "last_refresh st = Some t" and "t \<noteq> 0" and "now1 - t < 900" and "now2 - t < 900"
  shows "refresh_datasets http1 fmt now1 fin1 False st = (st, []) \<and>
         refresh_datasets http2 fmt now2 fin2 False
           (fst (refresh_datasets http1 fmt now1 fin1 False st)) = (st, [])"
  using assms by (simp add: refresh_datasets_def fresh_def)

theorem refresh_datasets_fresh_witness:
  "last_refresh example_state = Some 400 \<and> (400::real) \<noteq> 0 \<and>
   (500::real) - 400 < 900 \<and> (1299::real) - 400 < 900 \<and>
   refresh_datasets offline (\<lambda>j. []) 500 501 False example_state = (example_state, []) \<and>
   refresh_datasets offline (\<lambda>j. []) 1299 1300 False
      (fst (refresh_datasets offline (\<lambda>j. []) 500 501 False example_state))
     = (example_state, [])"
proof -
  have a: "last_refresh example_state = Some 400"
    by (rule example_last_refresh)
  have b: "(400::real) \<noteq> 0" "(500::real) - 400 < 900" "(1299::real) - 400 < 900"
    by simp_all
  from refresh_datasets_fresh [OF a b] a b show ?thesis
    by blast
qed

subsection \<open>A root catalog that fails\<close>

text \<open>
  C2, as amended. When a pass runs and the request for the root catalog raises, or its
  answer of status 200 does not parse, is no dict or lists services that cannot be
  iterated, the handler of line 637 catches the error and the pass goes on to its end:
  the cache becomes the working set that the loop over the registry has built, the time
  of the refresh is set, and the requests sent are those of that loop and the one for the
  catalog. The previous cache is dropped.
\<close>

theorem refresh_datasets_catalog_failure:
  assumes "\<not> fresh now force st" and "catalog_fails http"
  shows "refresh_datasets http fmt now finished force st =
           (st\<lparr>cached_datasets := all_datasets (known_pass http (known_services st)),
               cached_services := all_services (known_pass http (known_services st)),
               last_refresh := Some finished\<rparr>,
            probes (known_pass http (known_services st)) @ [catalog_request])"
  using assms by (simp add: refresh_datasets_def discovery_pass_def discover_catalog_fails Let_def)

theorem refresh_datasets_catalog_failure_witness:
  "\<not> fresh 2000 True example_state \<and> catalog_fails broken_catalog \<and>
   cached_datasets (fst (refresh_datasets broken_catalog (\<lambda>j. []) 2000 2001 True example_state))
     = [(''leases'', example_leases)] \<and>
   last_refresh (fst (refresh_datasets broken_catalog (\<lambda>j. []) 2000 2001 True example_state))
     = Some 2001"
proof -
  have a: "\<not> fresh 2000 True example_state"
    by (simp add: fresh_def)
  have b: "catalog_fails broken_catalog"
    by (simp add: catalog_fails_def broken_catalog_def catalog_request_def plain_request_def)
  from refresh_datasets_catalog_failure [OF a b, of "\<lambda>j. []" 2001] a b show ?thesis
    by (simp add: broken_known_pass)
qed

text \<open>
  The claim as stated fails on the example state for a root catalog whose answer does not
  parse: the forced pass leaves a cache other than the previous one.
\<close>

theorem refresh_datasets_catalog_failure_counterexample:
  "cached_datasets (fst (refresh_datasets broken_catalog (\<lambda>j. []) 2000 2001 True example_state))
     = [(''leases'', example_leases)] \<and>
   cached_datasets example_state
     = [(''leases'', example_leases), (''roads'', example_roads), (''leases_active'', example_active)]"
  by code_simp

subsection \<open>The keys of the cache\<close>



subsection \<open>Searching the cache\<close>

text \<open>
  C4, as amended. For a limit of at least 1: when \<^verbatim>\<open>_search_datasets\<close> returns, its result
  is the first \<open>limit\<close> matching records of the cache in the cache's order, so it has at
  most \<open>limit\<close> entries; each entry, for a query that is not empty, holds the lowered
  query in the lowered text made of its name, title, description and space-joined tags,
  joined by single spaces; and each entry, for a category that is given and not empty,
  has a category equal to it up to case. The search returns whenever the title, the
  description, the tags and the categories of every cached record are strings (joining
  or lowering anything else raises). What a limit below 1 gives is left out.
\<close>

theorem search_datasets_results:
  assumes "1 \<le> limit"
  shows "(\<forall>rs st' sent.
            search_datasets http fmt now finished query category limit st = (Inr rs, st', sent) \<longrightarrow>
              rs = take (nat limit)
                     (filter (\<lambda>d. dataset_matches query category d = Inr True)
                        (map snd (cached_datasets st'))) \<and>
              int (length rs) \<le> limit \<and>
              (\<forall>d\<in>set rs.
                 (query \<noteq> [] \<longrightarrow>
                    (\<exists>title description tags.
                       ds_title d = JStr title \<and> ds_description d = JStr description \<and>
                       ds_tags d = map JStr tags \<and>
                       sublist (lower query)
                         (lower (ds_name d @ '' '' @ title @ '' '' @ description @ '' '' @ join_sp tags)))) \<and>
                 (\<forall>c. category = Some c \<and> c \<noteq> [] \<longrightarrow>
                    (\<exists>cats. ds_categories d = map JStr cats \<and> lower c \<in> lower ` set cats)))) \<and>
         ((\<forall>d\<in>snd ` set (cached_datasets
                 (fst (refresh_datasets http fmt now finished False st))). text_record d) \<longrightarrow>
            (\<exists>rs. fst (search_datasets http fmt now finished query category limit st) = Inr rs))"
proof (intro conjI allI impI)
  fix rs st' sent
  assume r: "search_datasets http fmt now finished query category limit st = (Inr rs, st', sent)"
  then have loop: "search_loop query category limit [] (map snd (cached_datasets st')) = Inr rs"
    by (auto simp: search_datasets_def search_cache_def Let_def)
  from assms have "int (length ([]::dataset_info list)) < limit"
    by simp
  from search_loop_take [OF this loop]
  show rs: "rs = take (nat limit)
                     (filter (\<lambda>d. dataset_matches query category d = Inr True)
                        (map snd (cached_datasets st')))"
    by simp
  from rs assms show "int (length rs) \<le> limit"
    by simp
  show "\<forall>d\<in>set rs.
                 (query \<noteq> [] \<longrightarrow>
                    (\<exists>title description tags.
                       ds_title d = JStr title \<and> ds_description d = JStr description \<and>
                       ds_tags d = map JStr tags \<and>
                       sublist (lower query)
                         (lower (ds_name d @ '' '' @ title @ '' '' @ description @ '' '' @ join_sp tags)))) \<and>
                 (\<forall>c. category = Some c \<and> c \<noteq> [] \<longrightarrow>
                    (\<exists>cats. ds_categories d = map JStr cats \<and> lower c \<in> lower ` set cats))"
  proof
    fix d
    assume "d \<in> set rs"
    with rs have "d \<in> set (filter (\<lambda>d. dataset_matches query category d = Inr True)
                        (map snd (cached_datasets st')))"
      by (metis in_set_takeD)
    then have "dataset_matches query category d = Inr True"
      by simp
    then show "(query \<noteq> [] \<longrightarrow>
                    (\<exists>title description tags.
                       ds_title d = JStr title \<and> ds_description d = JStr description \<and>
                       ds_tags d = map JStr tags \<and>
                       sublist (lower query)
                         (lower (ds_name d @ '' '' @ title @ '' '' @ description @ '' '' @ join_sp tags)))) \<and>
                 (\<forall>c. category = Some c \<and> c \<noteq> [] \<longrightarrow>
                    (\<exists>cats. ds_categories d = map JStr cats \<and> lower c \<in> lower ` set cats))"
      by (rule dataset_matches_True)
  qed
next
  assume "\<forall>d\<in>snd ` set (cached_datasets
                 (fst (refresh_datasets http fmt now finished False st))). text_record d"
  then have "\<forall>d\<in>set (map snd (cached_datasets
                 (fst (refresh_datasets http fmt now finished False st)))).
               \<exists>m. dataset_matches query category d = Inr m"
    using text_record_matches by simp
  from search_loop_total [OF this]
  show "\<exists>rs. fst (search_datasets http fmt now finished query category limit st) = Inr rs"
    by (simp add: search_datasets_def search_cache_def Let_def)
qed

theorem search_datasets_results_witness:
  "(1::int) \<le> 1 \<and>
   search_datasets offline (\<lambda>j. []) 500 501 ''ESTATES'' (Some ''municipal SERVICES'') 1 example_state
     = (Inr [example_leases], example_state, []) \<and>
   [example_leases] = take (nat 1)
      (filter (\<lambda>d. dataset_matches ''ESTATES'' (Some ''municipal SERVICES'') d = Inr True)
         (map snd (cached_datasets example_state))) \<and>
   map snd (cached_datasets example_state) = [example_leases, example_roads, example_active] \<and>
   text_record example_leases \<and> text_record example_roads \<and> text_record example_active \<and>
   (\<exists>rs. fst (search_datasets offline (\<lambda>j. []) 500 501 ''ESTATES'' (Some ''municipal SERVICES'') 1
            example_state) = Inr rs)"
proof -
  have l: "(1::int) \<le> 1"
    by simp
  have r: "search_datasets offline (\<lambda>j. []) 500 501 ''ESTATES'' (Some ''municipal SERVICES'') 1
      example_state = (Inr [example_leases], example_state, [])"
    by (simp add: example_fresh example_cache search_defs example_leases_def example_roads_def example_active_def)
  have t: "\<forall>d\<in>snd ` set (cached_datasets
             (fst (refresh_datasets offline (\<lambda>j. []) 500 501 False example_state))). text_record d"
    by (simp add: example_fresh example_cache text_record_def is_str_def
        example_leases_def example_roads_def example_active_def)
  from search_datasets_results [OF l, of offline "\<lambda>j. []" 500 501 "''ESTATES''"
      "Some ''municipal SERVICES''" example_state] r t l
  show ?thesis
    by (simp add: example_fresh example_cache)
qed

text \<open>
  The claim as stated fails for the query \<^verbatim>\<open>"leases"\<close> with the category \<^verbatim>\<open>""\<close> and the
  limit 0: one record comes back, more than the limit, and no category of it is the
  empty string.
\<close>

theorem search_datasets_counterexample:
  "fst (search_datasets offline (\<lambda>j. []) 500 501 ''leases'' (Some []) 0 example_state)
     = Inr [example_leases] \<and>
   \<not> int (length [example_leases]) \<le> 0 \<and>
   ds_categories example_leases = [JStr ''Municipal Services''] \<and>
   lower [] \<notin> lower ` set [''Municipal Services'']"
  by (simp add: example_fresh example_cache search_defs example_leases_def example_roads_def example_active_def)

subsection \<open>The default description\<close>




subsection \<open>The identifier of a record\<close>

text \<open>
  C6, as amended. After a pass every cached record is stored under its \<open>id\<close>. For a
  service of the registry or of the catalog's root the \<open>id\<close> is the lowered name,
  with nothing replaced. For a service of a folder, named \<^verbatim>\<open>{folder}/{service}\<close>, it is the
  lowered name with every \<^verbatim>\<open>/\<close> replaced by \<^verbatim>\<open>_\<close>: folder \<^verbatim>\<open>Leases\<close> and service \<^verbatim>\<open>Active\<close>
  give \<^verbatim>\<open>leases_active\<close>.
\<close>

theorem dataset_id_normalised:
  assumes "\<not> fresh now force st"
    and "(k, d) \<in> set (cached_datasets (fst (refresh_datasets http fmt now finished force st)))"
  shows "ds_id d = k \<and>
         ((ds_categories d = [JStr ''Municipal Services''] \<and> ds_id d = lower (ds_name d)) \<or>
          (\<exists>folder service_name.
             ds_categories d = [JStr ''Municipal Services'', folder] \<and>
             ds_name d = py_format fmt folder @ ''/'' @ py_format fmt service_name \<and>
             ds_id d = replace_slash (lower (ds_name d)) \<and>
             CHR ''/'' \<notin> set (ds_id d)))"
proof
  note ins = refreshed_records [OF assms]
  from ins show "ds_id d = k"
    by (rule inserted_id)
  have slash: "CHR ''/'' \<notin> set (replace_slash s)" for s
    by (auto simp: replace_slash_def)
  from inserted_kind [OF ins]
  consider
    (flat) "ds_categories d = [JStr ''Municipal Services'']" "ds_id d = lower (ds_name d)"
  | (folder) folder service_name where
      "ds_categories d = [JStr ''Municipal Services'', folder]"
      "ds_name d = py_format fmt folder @ ''/'' @ py_format fmt service_name"
      "ds_id d = replace_slash (lower (ds_name d))"
    by (elim disjE exE conjE)
  then show "(ds_categories d = [JStr ''Municipal Services''] \<and> ds_id d = lower (ds_name d)) \<or>
          (\<exists>folder service_name.
             ds_categories d = [JStr ''Municipal Services'', folder] \<and>
             ds_name d = py_format fmt folder @ ''/'' @ py_format fmt service_name \<and>
             ds_id d = replace_slash (lower (ds_name d)) \<and>
             CHR ''/'' \<notin> set (ds_id d))"
  proof cases
    case flat
    then have "ds_categories d = [JStr ''Municipal Services''] \<and> ds_id d = lower (ds_name d)"
      by simp
    then show ?thesis
      by (rule disjI1)
  next
    case folder
    with slash [of "lower (ds_name d)"] have "\<exists>folder service_name.
             ds_categories d = [JStr ''Municipal Services'', folder] \<and>
             ds_name d = py_format fmt folder @ ''/'' @ py_format fmt service_name \<and>
             ds_id d = replace_slash (lower (ds_name d)) \<and>
             CHR ''/'' \<notin> set (ds_id d)"
      by (intro exI [of _ folder] exI [of _ service_name]) simp
    then show ?thesis
      by (rule disjI2)
  qed
qed

theorem dataset_id_normalised_witness:
  "\<not> fresh 0 True init_state \<and>
   (''leases_active'', example_active) \<in> set (cached_datasets example_state) \<and>
   ds_name example_active = ''Leases/Active'' \<and>
   ds_id example_active = ''leases_active'' \<and>
   ds_id example_active = replace_slash (lower (ds_name example_active))"
proof -
  have a: "\<not> fresh 0 True init_state"
    by (simp add: fresh_def)
  have b: "(''leases_active'', example_active) \<in> set (cached_datasets
      (fst (refresh_datasets example_remote (\<lambda>j. []) 0 400 True init_state)))"
    by (simp add: example_cache [unfolded example_state_def])
  have c: "ds_categories example_active \<noteq> [JStr ''Municipal Services'']"
    by (simp add: example_active_def)
  from dataset_id_normalised [OF a b] c
  have "ds_id example_active = ''leases_active'' \<and>
        ds_id example_active = replace_slash (lower (ds_name example_active))"
    by auto
  with a b show ?thesis
    by (simp add: example_state_def example_active_def)
qed

text \<open>
  The claim as stated fails for a service registered under the name \<^verbatim>\<open>Leases/Active\<close>: its
  \<open>id\<close> keeps the \<^verbatim>\<open>/\<close>.
\<close>

theorem dataset_id_normalised_counterexample:
  "map (\<lambda>kd. (ds_name (snd kd), ds_id (snd kd)))
     (cached_datasets (fst (snd (add_known_service example_remote (\<lambda>j. []) 0 1 ''Leases/Active''
        (api_base @ ''/Leases/Active/FeatureServer'') init_state))))
     = [(''Leases'', ''leases''), (''Leases/Active'', ''leases/active''), (''Roads'', ''roads''),
        (''Leases/Active'', ''leases_active'')] \<and>
   ''leases/active'' \<noteq> replace_slash (lower ''Leases/Active'')"
  by code_simp

subsection \<open>Failures stay with their item\<close>

text \<open>
  C7. A pass that runs ends with the time of the refresh set, whatever the remote
  answers. Every service of the registry whose own probe returns a dict that is not
  empty has its key in the cache after the pass, whatever happens to any other probe.
  When the root catalog answers with a list of entries that are dicts with names that
  can be hashed, the same holds for every listed service of type \<^verbatim>\<open>FeatureServer\<close> or
  \<^verbatim>\<open>MapServer\<close> that has a string for its name and is not in the registry; and for every
  folder the catalog lists whose own listing is a list of dicts, the same holds for every
  service of such a type in that folder, whatever happens to the other folders and to the
  other services.
\<close>

theorem probe_failures_stay_local:
  assumes "\<not> fresh now force st"
  shows "last_refresh (fst (refresh_datasets http fmt now finished force st)) = Some finished \<and>
         (\<forall>item\<in>set (known_services st).
            usable (get_service_info http (snd item)) \<longrightarrow>
              lower (fst item)
                \<in> fst ` set (cached_datasets (fst (refresh_datasets http fmt now finished force st)))) \<and>
         (\<forall>services.
            catalog_services http = Some services \<and> (\<forall>s\<in>set services. root_entry_ok s) \<longrightarrow>
              (\<forall>service\<in>set services. \<forall>name type.
                 py_get service ''name'' (JStr []) = Inr (JStr name) \<and>
                 py_get service ''type'' (JStr []) = Inr (JStr type) \<and>
                 type \<in> {''FeatureServer'', ''MapServer''} \<and>
                 name \<notin> fst ` set (known_services st) \<and>
                 usable (get_service_info http (api_base @ ''/'' @ name @ ''/'' @ type)) \<longrightarrow>
                   lower name
                     \<in> fst ` set (cached_datasets
                          (fst (refresh_datasets http fmt now finished force st)))) \<and>
              (\<forall>folders.
                 catalog_folders http = Some folders \<longrightarrow>
                   (\<forall>folder\<in>set folders. \<forall>listed.
                      folder_services http fmt folder = Some listed \<and> (\<forall>s\<in>set listed. is_obj s) \<longrightarrow>
                        (\<forall>service\<in>set listed. \<forall>name type.
                           py_get service ''name'' (JStr []) = Inr name \<and>
                           py_get service ''type'' (JStr []) = Inr (JStr type) \<and>
                           type \<in> {''FeatureServer'', ''MapServer''} \<and>
                           usable (get_service_info http
                             (api_base @ ''/'' @ py_format fmt folder @ ''/'' @ py_format fmt name
                                @ ''/'' @ type)) \<longrightarrow>
                             replace_slash (lower (py_format fmt folder @ ''/'' @ py_format fmt name))
                               \<in> fst ` set (cached_datasets
                                    (fst (refresh_datasets http fmt now finished force st)))))))"
proof -
  let ?known = "known_services st"
  let ?w1 = "(known_pass http ?known)\<lparr>probes := probes (known_pass http ?known) @ [catalog_request]\<rparr>"
  from assms have c: "cached_datasets (fst (refresh_datasets http fmt now finished force st))
      = all_datasets (discovery_pass http fmt ?known)"
    by (simp add: refresh_datasets_def Let_def)
  from assms have t: "last_refresh (fst (refresh_datasets http fmt now finished force st)) = Some finished"
    by (simp add: refresh_datasets_def Let_def)
  have k: "lower (fst item) \<in> dataset_keys (discovery_pass http fmt ?known)"
    if "item \<in> set ?known" and "usable (get_service_info http (snd item))" for item
    using known_loop_inserts [OF that, of empty_working] pass_keeps_known_keys [of http ?known fmt]
    by (auto simp: known_pass_def)
  have r: "lower name \<in> dataset_keys (discovery_pass http fmt ?known)"
    if "catalog_services http = Some services" and "\<forall>s\<in>set services. root_entry_ok s"
      and "service \<in> set services"
      and "py_get service ''name'' (JStr []) = Inr (JStr name)"
      and "py_get service ''type'' (JStr []) = Inr (JStr type)"
      and "type \<in> {''FeatureServer'', ''MapServer''}"
      and "name \<notin> fst ` set ?known"
      and "usable (get_service_info http (api_base @ ''/'' @ name @ ''/'' @ type))"
    for services service name type
    using root_loop_inserts [OF that(2-8), of fmt ?w1]
      discover_catalog_services [OF that(1), of fmt ?known "known_pass http ?known"]
    by (auto simp: discovery_pass_def)
  have f: "replace_slash (lower (py_format fmt folder @ ''/'' @ py_format fmt name))
             \<in> dataset_keys (discovery_pass http fmt ?known)"
    if "catalog_services http = Some services" and "\<forall>s\<in>set services. root_entry_ok s"
      and "catalog_folders http = Some folders" and "folder \<in> set folders"
      and "folder_services http fmt folder = Some listed" and "\<forall>s\<in>set listed. is_obj s"
      and "service \<in> set listed"
      and "py_get service ''name'' (JStr []) = Inr name"
      and "py_get service ''type'' (JStr []) = Inr (JStr type)"
      and "type \<in> {''FeatureServer'', ''MapServer''}"
      and "usable (get_service_info http
             (api_base @ ''/'' @ py_format fmt folder @ ''/'' @ py_format fmt name @ ''/'' @ type))"
    for services folders folder listed service name type
    unfolding discovery_pass_def discover_catalog_folders [OF that(1-3)]
    by (rule folder_loop_inserts [OF that(4-11)])
  show ?thesis
    unfolding c
  proof (intro conjI allI impI ballI)
    show "last_refresh (fst (refresh_datasets http fmt now finished force st)) = Some finished"
      by (rule t)
  next
    fix item
    assume "item \<in> set ?known" "usable (get_service_info http (snd item))"
    then show "lower (fst item) \<in> dataset_keys (discovery_pass http fmt ?known)"
      by (rule k)
  next
    fix services service name type
    assume "catalog_services http = Some services \<and> (\<forall>s\<in>set services. root_entry_ok s)"
      and "service \<in> set services"
      and "py_get service ''name'' (JStr []) = Inr (JStr name) \<and>
           py_get service ''type'' (JStr []) = Inr (JStr type) \<and>
           type \<in> {''FeatureServer'', ''MapServer''} \<and>
           name \<notin> fst ` set ?known \<and>
           usable (get_service_info http (api_base @ ''/'' @ name @ ''/'' @ type))"
    then show "lower name \<in> dataset_keys (discovery_pass http fmt ?known)"
      using r [of services service name type] by blast
  next
    fix services folders folder listed service name type
    assume "catalog_services http = Some services \<and> (\<forall>s\<in>set services. root_entry_ok s)"
      and "catalog_folders http = Some folders" and "folder \<in> set folders"
      and "folder_services http fmt folder = Some listed \<and> (\<forall>s\<in>set listed. is_obj s)"
      and "service \<in> set listed"
      and "py_get service ''name'' (JStr []) = Inr name \<and>
           py_get service ''type'' (JStr []) = Inr (JStr type) \<and>
           type \<in> {''FeatureServer'', ''MapServer''} \<and>
           usable (get_service_info http
             (api_base @ ''/'' @ py_format fmt folder @ ''/'' @ py_format fmt name @ ''/'' @ type))"
    then show "replace_slash (lower (py_format fmt folder @ ''/'' @ py_format fmt name))
                 \<in> dataset_keys (discovery_pass http fmt ?known)"
      using f [of services folders folder listed service name type] by blast
  qed
qed

text \<open>
  A pass in which the registry's only service, a service at the root, a folder and a
  service of the other folder all fail: the two services whose own probes succeed are in
  the cache.
\<close>

theorem probe_failures_stay_local_witness:
  "\<not> fresh 0 True init_state \<and>
   known_services init_state = [(''Leases'', api_base @ ''/Leases/FeatureServer'')] \<and>
   \<not> usable (get_service_info flaky_remote (api_base @ ''/Leases/FeatureServer'')) \<and>
   \<not> usable (get_service_info flaky_remote (api_base @ ''/Parks/FeatureServer'')) \<and>
   folder_services flaky_remote (\<lambda>j. []) (JStr ''Closed'') = None \<and>
   \<not> usable (get_service_info flaky_remote (api_base @ ''/Leases/Gone/MapServer'')) \<and>
   last_refresh (fst (refresh_datasets flaky_remote (\<lambda>j. []) 0 1 True init_state)) = Some 1 \<and>
   ''roads'' \<in> fst ` set (cached_datasets (fst (refresh_datasets flaky_remote (\<lambda>j. []) 0 1 True init_state))) \<and>
   ''leases_active'' \<in> fst ` set (cached_datasets (fst (refresh_datasets flaky_remote (\<lambda>j. []) 0 1 True init_state)))"
proof -
  let ?parks = "JObj [(''name'', JStr ''Parks''), (''type'', JStr ''FeatureServer'')]"
  let ?roads = "JObj [(''name'', JStr ''Roads''), (''type'', JStr ''MapServer'')]"
  let ?gone = "JObj [(''name'', JStr ''Gone''), (''type'', JStr ''MapServer'')]"
  let ?active = "JObj [(''name'', JStr ''Active''), (''type'', JStr ''FeatureServer'')]"
  have a: "\<not> fresh 0 True init_state"
    by (simp add: fresh_def)
  have b: "known_services init_state = [(''Leases'', api_base @ ''/Leases/FeatureServer'')]"
    by (simp add: init_state_def)
  note T = probe_failures_stay_local [OF a, of flaky_remote "\<lambda>j. []" 1]
  have ok: "\<forall>s\<in>set [?parks, ?roads]. root_entry_ok s"
    by (simp add: root_entry_ok_def)
  have obj: "\<forall>s\<in>set [?gone, ?active]. is_obj s"
    by (simp add: is_obj_def)
  have known: "''Roads'' \<notin> fst ` set (known_services init_state)"
    by (simp add: init_state_def)
  from T have t: "last_refresh (fst (refresh_datasets flaky_remote (\<lambda>j. []) 0 1 True init_state)) = Some 1"
    by (elim conjE)
  have cs: "catalog_services flaky_remote = Some [?parks, ?roads] \<and>
      (\<forall>s\<in>set [?parks, ?roads]. root_entry_ok s)"
    using flaky_listing(1) ok by (rule conjI)
  note C = T [THEN conjunct2, THEN conjunct2, rule_format, OF cs]
  have q: "py_get ?roads ''name'' (JStr []) = Inr (JStr ''Roads'') \<and>
      py_get ?roads ''type'' (JStr []) = Inr (JStr ''MapServer'') \<and>
      ''MapServer'' \<in> {''FeatureServer'', ''MapServer''} \<and>
      ''Roads'' \<notin> fst ` set (known_services init_state) \<and>
      usable (get_service_info flaky_remote (api_base @ ''/'' @ ''Roads'' @ ''/'' @ ''MapServer''))"
    using known flaky_probes(4) by simp
  have m: "?roads \<in> set [?parks, ?roads]"
    by simp
  have roads: "''roads'' \<in> fst ` set (cached_datasets
      (fst (refresh_datasets flaky_remote (\<lambda>j. []) 0 1 True init_state)))"
    using C [THEN conjunct1, rule_format, OF m q] by (simp only: lower_roads)
  have cf: "catalog_folders flaky_remote = Some [JStr ''Closed'', JStr ''Leases'']"
    by (rule flaky_listing(2))
  have mf: "JStr ''Leases'' \<in> set [JStr ''Closed'', JStr ''Leases'']"
    by simp
  have fs: "folder_services flaky_remote (\<lambda>j. []) (JStr ''Leases'') = Some [?gone, ?active] \<and>
      (\<forall>s\<in>set [?gone, ?active]. is_obj s)"
    using flaky_listing(4) obj by (rule conjI)
  have ma: "?active \<in> set [?gone, ?active]"
    by simp
  have qa: "py_get ?active ''name'' (JStr []) = Inr (JStr ''Active'') \<and>
      py_get ?active ''type'' (JStr []) = Inr (JStr ''FeatureServer'') \<and>
      ''FeatureServer'' \<in> {''FeatureServer'', ''MapServer''} \<and>
      usable (get_service_info flaky_remote
        (api_base @ ''/'' @ py_format (\<lambda>j. []) (JStr ''Leases'') @ ''/''
           @ py_format (\<lambda>j. []) (JStr ''Active'') @ ''/'' @ ''FeatureServer''))"
    using flaky_probes(5) by simp
  have active: "''leases_active'' \<in> fst ` set (cached_datasets
      (fst (refresh_datasets flaky_remote (\<lambda>j. []) 0 1 True init_state)))"
    using C [THEN conjunct2, rule_format, OF cf mf fs ma qa] by (simp only: flaky_active_key)
  from a b flaky_probes(1,2) flaky_listing(3) flaky_probes(3) t roads active show ?thesis
    by (intro conjI)
qed

subsection \<open>The bounding-box request\<close>

text \<open>
  C8, as amended. The parameters of the request that \<^verbatim>\<open>_spatial_query_by_coordinates\<close>
  builds are, in order: the geometry, which is \<^verbatim>\<open>json.dumps\<close> of the envelope with exactly
  the four ordinates given and the spatial reference of WKID 4326; the geometry type
  envelope; the relation \<^verbatim>\<open>esriSpatialRelIntersects\<close>; the where clause \<^verbatim>\<open>1=1\<close>; all output
  fields; geometry returned; the format; the record cap. A buffer distance other than
  0 adds that distance and the unit meter; no distance, or a distance of 0, adds nothing.
\<close>

theorem spatial_query_request_params:
  "req_params (spatial_query_request dumps service_url layer_id xmin ymin xmax ymax
      buffer_distance max_records) =
     [(''geometry'',
         JStr (dumps (JObj [(''xmin'', JFloat xmin), (''ymin'', JFloat ymin),
                            (''xmax'', JFloat xmax), (''ymax'', JFloat ymax),
                            (''spatialReference'', JObj [(''wkid'', JInt 4326)])]))),
      (''geometryType'', JStr ''esriGeometryEnvelope''),
      (''spatialRel'', JStr ''esriSpatialRelIntersects''),
      (''where'', JStr ''1=1''),
      (''outFields'', JStr ''*''),
      (''returnGeometry'', JStr ''true''),
      (''f'', JStr ''json''),
      (''resultRecordCount'', JInt max_records)]
     @ (case buffer_distance of
          None \<Rightarrow> []
        | Some distance \<Rightarrow>
            if distance = 0 then []
            else [(''distance'', JFloat distance), (''units'', JStr ''esriSRUnit_Meter'')])"
  by (simp add: spatial_query_request_def Let_def split: option.split)

text \<open>
  An instance: the ordinates and the record cap of the specification's example, with a
  buffer of 250 meters.
\<close>

theorem spatial_query_request_example:
  "req_params (spatial_query_request (\<lambda>j. ''{}'') ''https://example.org/FeatureServer'' 0
       (3102 / 100) (- 2987 / 100) (3105 / 100) (- 2985 / 100) (Some 250) 10) =
     [(''geometry'', JStr ''{}''),
      (''geometryType'', JStr ''esriGeometryEnvelope''),
      (''spatialRel'', JStr ''esriSpatialRelIntersects''),
      (''where'', JStr ''1=1''),
      (''outFields'', JStr ''*''),
      (''returnGeometry'', JStr ''true''),
      (''f'', JStr ''json''),
      (''resultRecordCount'', JInt 10),
      (''distance'', JFloat 250), (''units'', JStr ''esriSRUnit_Meter'')]"
  using spatial_query_request_params [of "\<lambda>j. ''{}''" "''https://example.org/FeatureServer''" 0
       "3102 / 100" "- 2987 / 100" "3105 / 100" "- 2985 / 100" "Some 250" 10]
  by simp

text \<open>
  The claim as stated fails for a buffer distance of 0: it is supplied, and the request
  carries no distance.
\<close>

theorem spatial_query_request_zero_buffer:
  "map_of (req_params (spatial_query_request (\<lambda>j. ''{}'') ''https://example.org/FeatureServer'' 0
       (3102 / 100) (- 2987 / 100) (3105 / 100) (- 2985 / 100) (Some 0) 10)) ''distance''
     \<noteq> Some (JFloat 0)"
  by (simp add: spatial_query_request_def Let_def)

subsection \<open>Looking a dataset up\<close>



subsection \<open>Registering a service\<close>

text \<open>
  C10. \<^verbatim>\<open>_add_known_service\<close> returns a message for every name, address, state and remote;
  nothing it does raises. The registry of the state it leaves is the old one with the
  name assigned to the address. The refresh is a forced pass over that registry, so the
  new address is among the requests sent, and whatever the remote answers, also when
  every request fails, the assignment stays.
\<close>

theorem add_known_service_registry:
  assumes "add_known_service http fmt now finished service_name service_url st = (msg, st', sent)"
  shows "known_services st' = dict_set (known_services st) service_name service_url \<and>
         map_of (known_services st') service_name = Some service_url \<and>
         (st', sent) = refresh_datasets http fmt now finished True
            (st\<lparr>known_services := dict_set (known_services st) service_name service_url\<rparr>) \<and>
         service_info_request service_url \<in> set sent \<and>
         last_refresh st' = Some finished \<and>
         msg = ''Successfully added service '' @ [CHR 0x27] @ service_name @ [CHR 0x27] @ '' at ''
            @ service_url @ ''. Found '' @ str_int (int (length (cached_datasets st')))
            @ '' total datasets.''"
proof -
  let ?st1 = "st\<lparr>known_services := dict_set (known_services st) service_name service_url\<rparr>"
  from assms have r: "(st', sent) = refresh_datasets http fmt now finished True ?st1"
    and m: "msg = ''Successfully added service '' @ [CHR 0x27] @ service_name @ [CHR 0x27] @ '' at ''
            @ service_url @ ''. Found '' @ str_int (int (length (cached_datasets st')))
            @ '' total datasets.''"
    by (auto simp: add_known_service_def Let_def)
  have nf: "\<not> fresh now True ?st1"
    by (simp add: fresh_def)
  from r nf have st': "st' = ?st1\<lparr>cached_datasets := all_datasets (discovery_pass http fmt (known_services ?st1)),
                   cached_services := all_services (discovery_pass http fmt (known_services ?st1)),
                   last_refresh := Some finished\<rparr>"
    and sent: "sent = probes (discovery_pass http fmt (known_services ?st1))"
    by (simp_all add: refresh_datasets_def Let_def)
  from st' have k: "known_services st' = dict_set (known_services st) service_name service_url"
    by simp
  then have l: "map_of (known_services st') service_name = Some service_url"
    by (simp add: map_of_dict_set)
  have "(service_name, service_url) \<in> set (known_services ?st1)"
    by (simp add: in_dict_set)
  from pass_probes_known [OF this, of http fmt] sent
  have p: "service_info_request service_url \<in> set sent"
    by simp
  from st' have t: "last_refresh st' = Some finished"
    by simp
  from k l r p t m show ?thesis
    by (intro conjI)
qed

text \<open>With every request failing, the registry still holds the new entry.\<close>

theorem add_known_service_registry_witness:
  "add_known_service offline (\<lambda>j. []) 0 1 ''Parks'' ''https://example.org/Parks/FeatureServer'' init_state
     = (''Successfully added service '' @ [CHR 0x27] @ ''Parks'' @ [CHR 0x27]
          @ '' at https://example.org/Parks/FeatureServer. Found 0 total datasets.'',
        init_state\<lparr>known_services :=
            [(''Leases'', api_base @ ''/Leases/FeatureServer''),
             (''Parks'', ''https://example.org/Parks/FeatureServer'')],
          last_refresh := Some 1\<rparr>,
        [service_info_request (api_base @ ''/Leases/FeatureServer''),
         service_info_request ''https://example.org/Parks/FeatureServer'',
         catalog_request]) \<and>
   map_of (known_services (fst (snd (add_known_service offline (\<lambda>j. []) 0 1 ''Parks''
      ''https://example.org/Parks/FeatureServer'' init_state)))) ''Parks''
     = Some ''https://example.org/Parks/FeatureServer''"
proof -
  have a: "add_known_service offline (\<lambda>j. []) 0 1 ''Parks'' ''https://example.org/Parks/FeatureServer'' init_state
     = (''Successfully added service '' @ [CHR 0x27] @ ''Parks'' @ [CHR 0x27]
          @ '' at https://example.org/Parks/FeatureServer. Found 0 total datasets.'',
        init_state\<lparr>known_services :=
            [(''Leases'', api_base @ ''/Leases/FeatureServer''),
             (''Parks'', ''https://example.org/Parks/FeatureServer'')],
          last_refresh := Some 1\<rparr>,
        [service_info_request (api_base @ ''/Leases/FeatureServer''),
         service_info_request ''https://example.org/Parks/FeatureServer'',
         catalog_request])"
    by (simp add: add_known_service_def offline_def str_int_def
        refresh_datasets_def fresh_def init_state_def discovery_pass_def known_pass_def
        known_step_def discover_catalog_def get_service_info_def probe_def empty_working_def Let_def
        char_of_eq_iff)
  from add_known_service_registry [OF a]
  have b: "map_of (known_services (init_state\<lparr>known_services :=
            [(''Leases'', api_base @ ''/Leases/FeatureServer''),
             (''Parks'', ''https://example.org/Parks/FeatureServer'')],
          last_refresh := Some 1\<rparr>)) ''Parks'' = Some ''https://example.org/Parks/FeatureServer''"
    by (elim conjE)
  show ?thesis
    unfolding a using a b by simp
qed

end
